theory Spec2Isabelle
  imports
    Main
    "HOL-Library.Sublist"
    "HOL-Library.Char_ord"
    "HOL-Library.List_Lexorder"
begin

section \<open>The file system the installer works on\<close>

text \<open>
  The installer (\<^verbatim>\<open>libs/installer.py\<close>) and the registry (\<^verbatim>\<open>sevpy.py\<close>) act on the
  file system through \<^verbatim>\<open>pathlib\<close>, \<^verbatim>\<open>shutil\<close>, \<^verbatim>\<open>os\<close> and \<^verbatim>\<open>subprocess\<close>. The file system
  is a finite table from absolute paths (the list of components below the root) to
  nodes; the root itself is always a directory. The order of the table is the order in
  which a directory walk meets the entries.

  Scope of the model. Paths are canonical: the table is keyed by the real location of
  every entry, and the paths the program builds from \<^verbatim>\<open>Path.home()\<close> are looked up as they
  are written (a directory of the installer reached only through a symbolic link is
  outside the model). Symbolic links are entries of their own; \<^verbatim>\<open>Path.resolve()\<close> and the
  calls that follow a link (\<^verbatim>\<open>exists\<close>, \<^verbatim>\<open>is_dir\<close>, \<^verbatim>\<open>is_file\<close>, \<^verbatim>\<open>os.access\<close>, running a
  program) dereference them. There are no permission bits, devices or quotas: a system
  call fails for the structural reasons of POSIX only (a missing path, a non-directory in
  the way, an entry already present). Child processes terminate.
\<close>

type_synonym path = "string list"

text \<open>
  What a regular file does when it is executed: with \<^verbatim>\<open>-V\<close> (\<open>None\<close> when
  \<^verbatim>\<open>subprocess.run(..., check=True)\<close> raises, otherwise standard output and standard error),
  and with the \<^verbatim>\<open>-c\<close> script that prints \<^verbatim>\<open>major.minor.micro\<close> under a timeout of five
  seconds (\<open>Inl\<close> the text of the exception raised, \<open>Inr\<close> the standard output).
\<close>

datatype proc = Proc (on_V: "(string \<times> string) option") (on_c: "string + string")

datatype node =
    File (xbit: bool) (prog: proc) (text_of: string)
  | Dir
  | Symlink (absolute: bool) (target: "string list")

type_synonym fs = "(path \<times> node) list"

text \<open>The exceptions of the Python program, each with the text \<^verbatim>\<open>str(e)\<close> gives.\<close>

datatype error =
    InstallAbort string
  | FileExistsError string
  | FileNotFoundError string
  | NotADirectoryError string
  | IsADirectoryError string
  | PermissionError string
  | OSError string
  | RuntimeError string
  | ValueError string

fun str_of_error :: "error \<Rightarrow> string" where
  "str_of_error (InstallAbort s) = s"
| "str_of_error (FileExistsError s) = s"
| "str_of_error (FileNotFoundError s) = s"
| "str_of_error (NotADirectoryError s) = s"
| "str_of_error (IsADirectoryError s) = s"
| "str_of_error (PermissionError s) = s"
| "str_of_error (OSError s) = s"
| "str_of_error (RuntimeError s) = s"
| "str_of_error (ValueError s) = s"

fun is_FileNotFoundError :: "error \<Rightarrow> bool" where
  "is_FileNotFoundError (FileNotFoundError s) = True"
| "is_FileNotFoundError e = False"

fun is_PermissionError :: "error \<Rightarrow> bool" where
  "is_PermissionError (PermissionError s) = True"
| "is_PermissionError e = False"

text \<open>\<^verbatim>\<open>str(path)\<close> of an absolute path.\<close>

definition path_str :: "path \<Rightarrow> string" where
  "path_str p = (if p = [] then ''/'' else concat (map (\<lambda>c. CHR ''/'' # c) p))"

text \<open>\<^verbatim>\<open>os.lstat\<close>: the entry at a path, links not followed.\<close>

definition lookup :: "fs \<Rightarrow> path \<Rightarrow> node option" where
  "lookup t p = (if p = [] then Some Dir else map_of t p)"

text \<open>
  \<^verbatim>\<open>Path.resolve()\<close> with its default \<^verbatim>\<open>strict=False\<close>: the walk of
  \<^verbatim>\<open>posixpath._joinrealpath\<close>. \<open>cur\<close> is the part resolved so far, the list is what is
  left to walk. A component that is not a link (or does not exist) is appended as it is;
  a link is replaced by the resolution of its target. Links nested deeper than the bound
  are a loop, for which \<^verbatim>\<open>resolve\<close> raises \<^verbatim>\<open>RuntimeError\<close> (result \<open>None\<close>).
\<close>

fun joinrealpath :: "fs \<Rightarrow> nat \<Rightarrow> path \<Rightarrow> string list \<Rightarrow> path option" where
  "joinrealpath t d cur [] = Some cur"
| "joinrealpath t d cur (name # rest) =
     (if name = [] \<or> name = ''.'' then joinrealpath t d cur rest
      else if name = ''..'' then joinrealpath t d (butlast cur) rest
      else (case lookup t (cur @ [name]) of
              Some (Symlink a tg) \<Rightarrow>
                (case d of
                   0 \<Rightarrow> None
                 | Suc d' \<Rightarrow>
                     (case joinrealpath t d' (if a then [] else cur) tg of
                        None \<Rightarrow> None
                      | Some cur' \<Rightarrow> joinrealpath t d cur' rest))
            | _ \<Rightarrow> joinrealpath t d (cur @ [name]) rest))"

definition resolve :: "fs \<Rightarrow> path \<Rightarrow> path option" where
  "resolve t p = joinrealpath t 40 [] p"

text \<open>\<^verbatim>\<open>os.stat\<close>: the entry at a path, a link at the path followed.\<close>

definition stat :: "fs \<Rightarrow> path \<Rightarrow> node option" where
  "stat t p =
     (case lookup t p of
        Some (Symlink a tg) \<Rightarrow> (case resolve t p of None \<Rightarrow> None | Some r \<Rightarrow> lookup t r)
      | n \<Rightarrow> n)"

definition pexists :: "fs \<Rightarrow> path \<Rightarrow> bool" where
  "pexists t p = (stat t p \<noteq> None)"

definition is_dir :: "fs \<Rightarrow> path \<Rightarrow> bool" where
  "is_dir t p = (stat t p = Some Dir)"

definition is_file :: "fs \<Rightarrow> path \<Rightarrow> bool" where
  "is_file t p = (case stat t p of Some (File x b s) \<Rightarrow> True | _ \<Rightarrow> False)"

definition is_symlink :: "fs \<Rightarrow> path \<Rightarrow> bool" where
  "is_symlink t p = (case lookup t p of Some (Symlink a tg) \<Rightarrow> True | _ \<Rightarrow> False)"

text \<open>\<^verbatim>\<open>Path.rglob("*")\<close>: every path below a directory, links to directories not entered.\<close>

definition rglob :: "fs \<Rightarrow> path \<Rightarrow> path list" where
  "rglob t d = filter (strict_prefix d) (map fst t)"

text \<open>The entries at and below a path: the tree rooted there.\<close>

definition tree_at :: "fs \<Rightarrow> path \<Rightarrow> fs" where
  "tree_at t d = filter (\<lambda>e. prefix d (fst e)) t"

text \<open>Every entry has a directory above it: the table is a tree.\<close>

definition parent_closed :: "fs \<Rightarrow> bool" where
  "parent_closed t = (\<forall>e \<in> set t. fst e \<noteq> [] \<and> lookup t (butlast (fst e)) = Some Dir)"

subsection \<open>System calls\<close>

text \<open>A call returns the exception or the value, and the file system it leaves.\<close>

type_synonym 'a io = "(error + 'a) \<times> fs"

text \<open>\<^verbatim>\<open>os.mkdir\<close>.\<close>

definition os_mkdir :: "fs \<Rightarrow> path \<Rightarrow> unit io" where
  "os_mkdir t p =
     (if lookup t p \<noteq> None then (Inl (FileExistsError (''File exists: '' @ path_str p)), t)
      else (case lookup t (butlast p) of
              None \<Rightarrow> (Inl (FileNotFoundError (''No such file or directory: '' @ path_str p)), t)
            | Some Dir \<Rightarrow> (Inr (), t @ [(p, Dir)])
            | Some _ \<Rightarrow> (Inl (NotADirectoryError (''Not a directory: '' @ path_str p)), t)))"

text \<open>
  \<^verbatim>\<open>Path.mkdir(parents, exist_ok)\<close>, as \<^verbatim>\<open>pathlib\<close> writes it: try \<^verbatim>\<open>os.mkdir\<close>; on
  \<^verbatim>\<open>FileNotFoundError\<close> make the parents and try again; on another \<^verbatim>\<open>OSError\<close> raise
  unless \<^verbatim>\<open>exist_ok\<close> and the path is a directory.
\<close>

function mkdir :: "bool \<Rightarrow> bool \<Rightarrow> fs \<Rightarrow> path \<Rightarrow> unit io" where
  "mkdir parents exist_ok t p =
     (case os_mkdir t p of
        (Inr u, t') \<Rightarrow> (Inr (), t')
      | (Inl e, t') \<Rightarrow>
          (if is_FileNotFoundError e then
             (if \<not> parents \<or> p = [] then (Inl e, t')
              else (case mkdir True True t' (butlast p) of
                      (Inl e', t'') \<Rightarrow> (Inl e', t'')
                    | (Inr u, t'') \<Rightarrow> mkdir False exist_ok t'' p))
           else if \<not> exist_ok \<or> \<not> is_dir t' p then (Inl e, t')
           else (Inr (), t')))"
  by pat_completeness auto
termination
  by (relation "measures [\<lambda>(pa, ex, t, p). length p, \<lambda>(pa, ex, t, p). if pa then 1 else 0]") auto

text \<open>
  \<^verbatim>\<open>Path.rename\<close> (\<^verbatim>\<open>rename(2)\<close>): one step that either moves the whole tree or changes
  nothing.
\<close>

definition move_path :: "path \<Rightarrow> path \<Rightarrow> path \<Rightarrow> path" where
  "move_path src dst q = (if prefix src q then dst @ drop (length src) q else q)"

definition has_children :: "fs \<Rightarrow> path \<Rightarrow> bool" where
  "has_children t d = (\<exists>e \<in> set t. strict_prefix d (fst e))"

definition os_rename :: "fs \<Rightarrow> path \<Rightarrow> path \<Rightarrow> unit io" where
  "os_rename t src dst =
     (let moved = map (\<lambda>e. (move_path src dst (fst e), snd e)) (filter (\<lambda>e. fst e \<noteq> dst) t) in
      case lookup t src of
        None \<Rightarrow> (Inl (FileNotFoundError (''No such file or directory: '' @ path_str src)), t)
      | Some n \<Rightarrow>
          if src = [] \<or> dst = [] then (Inl (OSError (''Device or resource busy: '' @ path_str src)), t)
          else if src = dst then (Inr (), t)
          else if prefix src dst then (Inl (OSError (''Invalid argument: '' @ path_str src)), t)
          else (case lookup t (butlast dst) of
                  None \<Rightarrow> (Inl (FileNotFoundError (''No such file or directory: '' @ path_str dst)), t)
                | Some Dir \<Rightarrow>
                    (case lookup t dst of
                       None \<Rightarrow> (Inr (), moved)
                     | Some Dir \<Rightarrow>
                         if n \<noteq> Dir then (Inl (IsADirectoryError (''Is a directory: '' @ path_str dst)), t)
                         else if has_children t dst
                         then (Inl (OSError (''Directory not empty: '' @ path_str dst)), t)
                         else (Inr (), moved)
                     | Some m \<Rightarrow>
                         if n = Dir then (Inl (NotADirectoryError (''Not a directory: '' @ path_str dst)), t)
                         else (Inr (), moved))
                | Some _ \<Rightarrow> (Inl (NotADirectoryError (''Not a directory: '' @ path_str dst)), t)))"

text \<open>
  \<^verbatim>\<open>Path.write_text\<close>: open for writing (create or truncate, a link followed) and write.
  A file written as text no longer is a program.
\<close>

definition no_prog :: proc where
  "no_prog = Proc None (Inl ''Exec format error'')"

definition put :: "fs \<Rightarrow> path \<Rightarrow> node \<Rightarrow> fs" where
  "put t p n = (if map_of t p = None then t @ [(p, n)] else map (\<lambda>e. if fst e = p then (p, n) else e) t)"

definition write_at :: "fs \<Rightarrow> path \<Rightarrow> string \<Rightarrow> unit io" where
  "write_at t p s =
     (case lookup t p of
        Some Dir \<Rightarrow> (Inl (IsADirectoryError (''Is a directory: '' @ path_str p)), t)
      | Some (File x b old) \<Rightarrow> (Inr (), put t p (File x no_prog s))
      | Some (Symlink a tg) \<Rightarrow> (Inl (OSError (''Too many levels of symbolic links: '' @ path_str p)), t)
      | None \<Rightarrow>
          (case lookup t (butlast p) of
             Some Dir \<Rightarrow> (Inr (), put t p (File False no_prog s))
           | None \<Rightarrow> (Inl (FileNotFoundError (''No such file or directory: '' @ path_str p)), t)
           | Some _ \<Rightarrow> (Inl (NotADirectoryError (''Not a directory: '' @ path_str p)), t)))"

definition write_text :: "fs \<Rightarrow> path \<Rightarrow> string \<Rightarrow> unit io" where
  "write_text t p s =
     (case lookup t p of
        Some (Symlink a tg) \<Rightarrow>
          (case resolve t p of
             None \<Rightarrow> (Inl (OSError (''Too many levels of symbolic links: '' @ path_str p)), t)
           | Some r \<Rightarrow> write_at t r s)
      | _ \<Rightarrow> write_at t p s)"

text \<open>\<^verbatim>\<open>shutil.rmtree\<close>, and the same with \<^verbatim>\<open>ignore_errors=True\<close>.\<close>

definition rmtree :: "fs \<Rightarrow> path \<Rightarrow> unit io" where
  "rmtree t p =
     (case lookup t p of
        None \<Rightarrow> (Inl (FileNotFoundError (''No such file or directory: '' @ path_str p)), t)
      | Some Dir \<Rightarrow> (Inr (), filter (\<lambda>e. \<not> prefix p (fst e)) t)
      | Some (Symlink a tg) \<Rightarrow> (Inl (OSError ''Cannot call rmtree on a symbolic link''), t)
      | Some _ \<Rightarrow> (Inl (NotADirectoryError (''Not a directory: '' @ path_str p)), t))"

definition rmtree_ignore_errors :: "fs \<Rightarrow> path \<Rightarrow> fs" where
  "rmtree_ignore_errors t p = snd (rmtree t p)"

section \<open>The installer\<close>

text \<open>
  \<^verbatim>\<open>class Installer\<close>: the fields \<^verbatim>\<open>__init__\<close> computes from the version, the home
  directory and the (resolved) source directory. The prefix name is one path component.
\<close>

record installer =
  version :: string
  home :: path
  source_directory :: path

definition prefix_name :: "installer \<Rightarrow> string" where
  "prefix_name ins = ''python-'' @ version ins"

definition install_global_dir :: "installer \<Rightarrow> path" where
  "install_global_dir ins = home ins @ [''.local'', ''opt'']"

definition install_version_dir :: "installer \<Rightarrow> path" where
  "install_version_dir ins = install_global_dir ins @ [prefix_name ins]"

definition staging_dir :: "installer \<Rightarrow> path" where
  "staging_dir ins = home ins @ [''.cache'', ''python-installer'', ''stage'', prefix_name ins]"

definition log_dir :: "installer \<Rightarrow> path" where
  "log_dir ins = home ins @ [''.cache'', ''sevpy'', ''logs'', prefix_name ins]"

definition manifest_path :: "installer \<Rightarrow> path" where
  "manifest_path ins = install_version_dir ins @ [''.install-manifest'']"

text \<open>\<^verbatim>\<open>self.staging_dir / self.install_version_dir.relative_to("/")\<close>.\<close>

definition staged_prefix :: "installer \<Rightarrow> path" where
  "staged_prefix ins = staging_dir ins @ install_version_dir ins"

text \<open>\<^verbatim>\<open>sep.join(xs)\<close>.\<close>

fun join :: "string \<Rightarrow> string list \<Rightarrow> string" where
  "join sep [] = []"
| "join sep [x] = x"
| "join sep (x # y # ys) = x @ sep @ join sep (y # ys)"

definition check_prefix_collision :: "installer \<Rightarrow> fs \<Rightarrow> unit io" where
  "check_prefix_collision ins t =
     (if pexists t (install_version_dir ins) then
        (if pexists t (manifest_path ins) then
           (Inl (InstallAbort (''Python '' @ version ins @ '' is already installed at ''
                                @ path_str (install_version_dir ins))), t)
         else
           (Inl (InstallAbort (''Installation directory exists but is unmanaged: ''
                                @ path_str (install_version_dir ins))), t))
      else (Inr (), t))"

definition manifest_entries :: "installer \<Rightarrow> fs \<Rightarrow> string list" where
  "manifest_entries ins t =
     map path_str (filter (\<lambda>p. is_file t p \<or> is_symlink t p) (rglob t (install_version_dir ins)))"

definition write_manifest :: "installer \<Rightarrow> fs \<Rightarrow> unit io" where
  "write_manifest ins t =
     (case write_text t (manifest_path ins) (join [CHR 0x0A] (manifest_entries ins t) @ [CHR 0x0A]) of
        (Inl e, t') \<Rightarrow> (Inl (InstallAbort (''Failed to write manifest: '' @ str_of_error e)), t')
      | (Inr u, t') \<Rightarrow> (Inr (), t'))"

definition commit_install :: "installer \<Rightarrow> fs \<Rightarrow> unit io" where
  "commit_install ins t =
     (if \<not> pexists t (staged_prefix ins) then
        (Inl (InstallAbort ''Nothing to commit: staged prefix missing''), t)
      else if pexists t (install_version_dir ins) then
        (Inl (InstallAbort (''Install prefix already exists: '' @ path_str (install_version_dir ins))), t)
      else
        (case mkdir True True t (butlast (install_version_dir ins)) of
           (Inl e, t1) \<Rightarrow> (Inl (InstallAbort (''Commit failed: '' @ str_of_error e)), t1)
         | (Inr u, t1) \<Rightarrow>
             (case os_rename t1 (staged_prefix ins) (install_version_dir ins) of
                (Inl e, t2) \<Rightarrow> (Inl (InstallAbort (''Commit failed: '' @ str_of_error e)), t2)
              | (Inr u, t2) \<Rightarrow>
                  (case write_manifest ins t2 of
                     (Inl e, t3) \<Rightarrow> (Inl e, t3)
                   | (Inr u, t3) \<Rightarrow> (Inr (), rmtree_ignore_errors t3 (staging_dir ins))))))"

subsection \<open>Verification of the staged tree\<close>

text \<open>\<^verbatim>\<open>bin_dir.glob("python3.*")\<close>: the entries of a directory whose name starts with \<^verbatim>\<open>python3.\<close>.\<close>

definition glob_python3 :: "fs \<Rightarrow> path \<Rightarrow> path list" where
  "glob_python3 t d =
     (if is_dir t d
      then filter (\<lambda>p. p \<noteq> [] \<and> butlast p = d \<and> prefix ''python3.'' (last p)) (map fst t)
      else [])"

text \<open>\<^verbatim>\<open>os.access(p, os.X_OK)\<close>, and running a program with \<^verbatim>\<open>-V\<close> or with the \<^verbatim>\<open>-c\<close> script.\<close>

definition access_x :: "fs \<Rightarrow> path \<Rightarrow> bool" where
  "access_x t p = (case stat t p of Some (File x b s) \<Rightarrow> x | Some Dir \<Rightarrow> True | _ \<Rightarrow> False)"

definition run_V :: "fs \<Rightarrow> path \<Rightarrow> (string \<times> string) option" where
  "run_V t p = (case stat t p of Some (File x b s) \<Rightarrow> on_V b | _ \<Rightarrow> None)"

definition run_c :: "fs \<Rightarrow> path \<Rightarrow> string + string" where
  "run_c t p = (case stat t p of Some (File x b s) \<Rightarrow> on_c b | _ \<Rightarrow> Inl ''Permission denied'')"

text \<open>\<^verbatim>\<open>str.strip()\<close> on ASCII text.\<close>

definition is_space :: "char \<Rightarrow> bool" where
  "is_space c = (c \<in> set [CHR 0x09, CHR 0x0A, CHR 0x0B, CHR 0x0C, CHR 0x0D,
                           CHR 0x1C, CHR 0x1D, CHR 0x1E, CHR 0x1F, CHR 0x20])"

definition strip :: "string \<Rightarrow> string" where
  "strip s = rev (dropWhile is_space (rev (dropWhile is_space s)))"

text \<open>
  The test one candidate has to pass in \<^verbatim>\<open>find_python_binary\<close>: executable, runs, and
  \<^verbatim>\<open>self.version in (stdout.strip() or stderr.strip())\<close>.
\<close>

definition version_output :: "string \<times> string \<Rightarrow> string" where
  "version_output r = (if strip (fst r) \<noteq> [] then strip (fst r) else strip (snd r))"

fun find_python_binary_loop :: "string \<Rightarrow> fs \<Rightarrow> path list \<Rightarrow> error + path" where
  "find_python_binary_loop v t [] =
     Inl (InstallAbort ''No valid Python executable found in staged install'')"
| "find_python_binary_loop v t (candidate # rest) =
     (if \<not> access_x t candidate then find_python_binary_loop v t rest
      else (case run_V t candidate of
              None \<Rightarrow> find_python_binary_loop v t rest
            | Some r \<Rightarrow>
                if sublist v (version_output r) then Inr candidate
                else find_python_binary_loop v t rest))"

definition find_python_binary :: "installer \<Rightarrow> fs \<Rightarrow> path \<Rightarrow> error + path" where
  "find_python_binary ins t sp =
     (let bin_dir = sp @ [''bin''] in
      if \<not> pexists t bin_dir then Inl (InstallAbort (''Missing bin directory: '' @ path_str bin_dir))
      else
        (let candidates = sort (glob_python3 t bin_dir) in
         if candidates = [] then Inl (InstallAbort ''No python3.x executable found in staged install'')
         else find_python_binary_loop (version ins) t candidates))"

text \<open>
  \<^verbatim>\<open>path.resolve()\<close> as the program calls it: the resolved path, or the \<^verbatim>\<open>RuntimeError\<close> of
  a link loop. It never raises \<^verbatim>\<open>FileNotFoundError\<close>: that is the strict mode only.
\<close>

definition path_resolve :: "fs \<Rightarrow> path \<Rightarrow> error + path" where
  "path_resolve t p =
     (case resolve t p of
        None \<Rightarrow> Inl (RuntimeError (''Symlink loop from '' @ path_str p))
      | Some r \<Rightarrow> Inr r)"

text \<open>The arrow of the message, U+2192 in UTF-8, between two blanks.\<close>

definition arrow :: string where
  "arrow = [CHR 0x20, CHR 0xE2, CHR 0x86, CHR 0x92, CHR 0x20]"

fun verify_staging_loop :: "fs \<Rightarrow> path \<Rightarrow> path list \<Rightarrow> error + unit" where
  "verify_staging_loop t sp [] = Inr ()"
| "verify_staging_loop t sp (p # rest) =
     (case path_resolve t p of
        Inl e \<Rightarrow>
          if is_FileNotFoundError e then Inl (InstallAbort (''Broken symlink: '' @ path_str p))
          else Inl e
      | Inr resolved \<Rightarrow>
          if \<not> prefix (path_str sp) (path_str resolved)
          then Inl (InstallAbort (''Path escapes install prefix: '' @ path_str p @ arrow
                                  @ path_str resolved))
          else verify_staging_loop t sp rest)"

definition verify_staging :: "installer \<Rightarrow> fs \<Rightarrow> error + unit" where
  "verify_staging ins t =
     (if \<not> pexists t (staged_prefix ins)
      then Inl (InstallAbort (''Staged prefix not found: '' @ path_str (staged_prefix ins)))
      else (case find_python_binary ins t (staged_prefix ins) of
              Inl e \<Rightarrow> Inl e
            | Inr python_bin \<Rightarrow>
                verify_staging_loop t (staged_prefix ins) (rglob t (staged_prefix ins))))"

subsection \<open>The staged install\<close>

text \<open>
  A build step is a child process: it leaves a file system and ends in one of three
  ways. \<^verbatim>\<open>_run_logged\<close> opens the log for writing, runs the step, and turns a non-zero exit
  or an interrupt into an abort.
\<close>

datatype outcome = Completed | Failed | Interrupted

type_synonym step = "fs \<Rightarrow> outcome \<times> fs"

definition run_logged :: "installer \<Rightarrow> step \<Rightarrow> string list \<Rightarrow> string \<Rightarrow> fs \<Rightarrow> unit io" where
  "run_logged ins run cmd log_name t =
     (let log_path = log_dir ins @ [log_name] in
      case write_text t log_path [] of
        (Inl e, t1) \<Rightarrow> (Inl e, t1)
      | (Inr u, t1) \<Rightarrow>
          (case run t1 of
             (Completed, t2) \<Rightarrow> (Inr (), t2)
           | (Failed, t2) \<Rightarrow>
               (Inl (InstallAbort (''Command failed: '' @ join '' '' cmd @ [CHR 0x0A]
                                   @ ''See log: '' @ path_str log_path)), t2)
           | (Interrupted, t2) \<Rightarrow>
               (Inl (InstallAbort (''Interrupted by user'' @ [CHR 0x0A]
                                   @ ''Partial log: '' @ path_str log_path)), t2)))"

text \<open>
  \<^verbatim>\<open>re.compile(r"^_tkinter.*\.so$").search(name)\<close>: the name starts with \<^verbatim>\<open>_tkinter\<close>, ends
  with \<^verbatim>\<open>.so\<close> (or with \<^verbatim>\<open>.so\<close> and one newline), with no newline in between.
\<close>

definition tk_match_exact :: "string \<Rightarrow> bool" where
  "tk_match_exact n =
     (prefix ''_tkinter'' n \<and> suffix ''.so'' (drop 8 n)
      \<and> CHR 0x0A \<notin> set (take (length n - 11) (drop 8 n)))"

definition tk_match :: "string \<Rightarrow> bool" where
  "tk_match n = (tk_match_exact n \<or> (n \<noteq> [] \<and> last n = CHR 0x0A \<and> tk_match_exact (butlast n)))"

text \<open>\<^verbatim>\<open>find_files\<close> of \<^verbatim>\<open>libs/path_utils.py\<close> with \<^verbatim>\<open>follow_symlinks=False\<close>.\<close>

definition find_files :: "fs \<Rightarrow> path \<Rightarrow> (string \<Rightarrow> bool) \<Rightarrow> error + path list" where
  "find_files t search_dir regex =
     (if \<not> is_dir t search_dir then Inl (ValueError (''Not a directory: '' @ path_str search_dir))
      else Inr (filter (\<lambda>p. \<not> is_symlink t p \<and> is_file t p \<and> regex (last p)) (rglob t search_dir)))"

text \<open>\<^verbatim>\<open>Path.unlink\<close>.\<close>

definition unlink :: "fs \<Rightarrow> path \<Rightarrow> unit io" where
  "unlink t p =
     (case lookup t p of
        None \<Rightarrow> (Inl (FileNotFoundError (''No such file or directory: '' @ path_str p)), t)
      | Some Dir \<Rightarrow> (Inl (IsADirectoryError (''Is a directory: '' @ path_str p)), t)
      | Some _ \<Rightarrow> (Inr (), filter (\<lambda>e. fst e \<noteq> p) t))"

fun unlink_all :: "fs \<Rightarrow> path list \<Rightarrow> unit io" where
  "unlink_all t [] = (Inr (), t)"
| "unlink_all t (tk # rest) =
     (case unlink t tk of
        (Inl e, t') \<Rightarrow> (Inl e, t')
      | (Inr u, t') \<Rightarrow> unlink_all t' rest)"

text \<open>The dash of the message, U+2014 in UTF-8.\<close>

definition emdash :: string where
  "emdash = [CHR 0xE2, CHR 0x80, CHR 0x94]"

definition staged_install :: "installer \<Rightarrow> step \<Rightarrow> bool \<Rightarrow> fs \<Rightarrow> unit io" where
  "staged_install ins altinstall enable_tk t =
     (if \<not> pexists t (source_directory ins @ [''Makefile''])
      then (Inl (InstallAbort (''Makefile missing '' @ emdash @ '' did you run configure()?'')), t)
      else if pexists t (staging_dir ins)
      then (Inl (InstallAbort (''Staging directory already exists: '' @ path_str (staging_dir ins))), t)
      else
        (case mkdir True False t (staging_dir ins) of
           (Inl e, t1) \<Rightarrow>
             if is_PermissionError e
             then (Inl (InstallAbort (''Cannot create staging directory: ''
                                      @ path_str (staging_dir ins))), t1)
             else (Inl e, t1)
         | (Inr u, t1) \<Rightarrow>
             (case run_logged ins altinstall
                     [''make'', ''altinstall'', ''DESTDIR='' @ path_str (staging_dir ins)]
                     ''install.log'' t1 of
                (Inl e, t2) \<Rightarrow> (Inl e, t2)
              | (Inr u, t2) \<Rightarrow>
                  if enable_tk then (Inr (), t2)
                  else (case find_files t2 (staged_prefix ins) tk_match of
                          Inl e \<Rightarrow> (Inl e, t2)
                        | Inr tk_modules \<Rightarrow> unlink_all t2 tk_modules))))"

section \<open>The registry of installed versions\<close>

text \<open>
  \<^verbatim>\<open>sevpy.py\<close>. \<^verbatim>\<open>INSTALL_ROOT\<close> is \<^verbatim>\<open>Path.home() / ".local" / "opt"\<close>; the home directory and
  \<^verbatim>\<open>shutil.which\<close> (the search of \<^verbatim>\<open>PATH\<close>) are parameters.
\<close>

definition INSTALL_ROOT :: "path \<Rightarrow> path" where
  "INSTALL_ROOT hm = hm @ [''.local'', ''opt'']"

record info =
  prefix_of :: path
  python :: "path option"
  runtime_version :: "string option"
  valid :: bool
  activated :: bool
  error_of :: "string option"

text \<open>\<^verbatim>\<open>s.split(".")\<close>.\<close>

fun split_dot :: "string \<Rightarrow> string list" where
  "split_dot [] = [[]]"
| "split_dot (c # cs) =
     (if c = CHR ''.'' then [] # split_dot cs
      else (case split_dot cs of
              [] \<Rightarrow> [[c]]
            | w # ws \<Rightarrow> (c # w) # ws))"

definition check_activated :: "(string \<Rightarrow> path option) \<Rightarrow> fs \<Rightarrow> string \<Rightarrow> bool" where
  "check_activated which t v =
     (let parts = split_dot v in
      if length parts < 2 then False
      else
        (let major = parts ! 0; minor = parts ! 1;
             want_patch = (if length parts > 2 then Some (parts ! 2) else None) in
         case which (''python'' @ major @ ''.'' @ minor) of
           None \<Rightarrow> False
         | Some python_exe \<Rightarrow>
             (case run_c t python_exe of
                Inl e \<Rightarrow> False
              | Inr out \<Rightarrow>
                  (let found = strip out in
                   if want_patch = None then prefix (major @ ''.'' @ minor @ ''.'') found
                   else found = v))))"

text \<open>The loop over the candidates of one prefix, with its \<^verbatim>\<open>continue\<close> and \<^verbatim>\<open>break\<close>.\<close>

fun candidates_loop :: "string \<Rightarrow> fs \<Rightarrow> info \<Rightarrow> path list \<Rightarrow> info" where
  "candidates_loop v t nfo [] = nfo"
| "candidates_loop v t nfo (candidate # rest) =
     (if \<not> access_x t candidate then candidates_loop v t nfo rest
      else (case run_c t candidate of
              Inl e \<Rightarrow> candidates_loop v t (nfo\<lparr>error_of := Some e\<rparr>) rest
            | Inr out \<Rightarrow>
                (let rv = strip out in
                 if rv = v
                 then nfo\<lparr>python := Some candidate, runtime_version := Some rv,
                          valid := True, error_of := None\<rparr>
                 else candidates_loop v t nfo rest)))"

text \<open>The body of the loop over \<^verbatim>\<open>INSTALL_ROOT.iterdir()\<close>, for an entry that is not skipped.\<close>

definition entry_info :: "(string \<Rightarrow> path option) \<Rightarrow> fs \<Rightarrow> path \<Rightarrow> info" where
  "entry_info which t entry =
     (let v = drop 7 (last entry);
          bin_dir = entry @ [''bin''];
          nfo = \<lparr>prefix_of = entry, python = None, runtime_version = None,
                 valid = False, activated = False, error_of = None\<rparr> in
      if \<not> pexists t bin_dir then nfo\<lparr>error_of := Some ''missing bin directory''\<rparr>
      else
        (let candidates = sort (glob_python3 t bin_dir) in
         if candidates = [] then nfo\<lparr>error_of := Some ''no python3.x executable found''\<rparr>
         else (candidates_loop v t nfo candidates)\<lparr>activated := check_activated which t v\<rparr>))"

text \<open>A \<^verbatim>\<open>dict\<close> in insertion order, and \<^verbatim>\<open>d[k] = x\<close>.\<close>

type_synonym versions = "(string \<times> info) list"

definition dict_set :: "versions \<Rightarrow> string \<Rightarrow> info \<Rightarrow> versions" where
  "dict_set d k x =
     (if map_of d k = None then d @ [(k, x)] else map (\<lambda>e. if fst e = k then (k, x) else e) d)"

definition iterdir :: "fs \<Rightarrow> path \<Rightarrow> path list" where
  "iterdir t d = filter (\<lambda>p. p \<noteq> [] \<and> butlast p = d) (map fst t)"

fun find_installed_loop ::
  "(string \<Rightarrow> path option) \<Rightarrow> fs \<Rightarrow> versions \<Rightarrow> path list \<Rightarrow> versions" where
  "find_installed_loop which t vs [] = vs"
| "find_installed_loop which t vs (entry # rest) =
     (if \<not> is_dir t entry then find_installed_loop which t vs rest
      else if \<not> prefix ''python-'' (last entry) then find_installed_loop which t vs rest
      else find_installed_loop which t
             (dict_set vs (drop 7 (last entry)) (entry_info which t entry)) rest)"

definition find_installed_versions ::
  "path \<Rightarrow> (string \<Rightarrow> path option) \<Rightarrow> fs \<Rightarrow> error + versions" where
  "find_installed_versions hm which t =
     (if \<not> pexists t (INSTALL_ROOT hm) then Inr []
      else if \<not> is_dir t (INSTALL_ROOT hm)
      then Inl (NotADirectoryError (''Not a directory: '' @ path_str (INSTALL_ROOT hm)))
      else Inr (find_installed_loop which t [] (iterdir t (INSTALL_ROOT hm))))"

text \<open>\<^verbatim>\<open>remove_broken\<close>; what it prints is left out.\<close>

fun remove_broken_loop :: "fs \<Rightarrow> versions \<Rightarrow> fs" where
  "remove_broken_loop t [] = t"
| "remove_broken_loop t (item # rest) =
     (if valid (snd item) then remove_broken_loop t rest
      else remove_broken_loop (snd (rmtree t (prefix_of (snd item)))) rest)"

definition remove_broken :: "path \<Rightarrow> (string \<Rightarrow> path option) \<Rightarrow> fs \<Rightarrow> unit io" where
  "remove_broken hm which t =
     (case find_installed_versions hm which t of
        Inl e \<Rightarrow> (Inl e, t)
      | Inr installed \<Rightarrow> (Inr (), remove_broken_loop t installed))"

section \<open>Auxiliary notions and example states\<close>

text \<open>
  \<open>extends t p t'\<close>: \<open>t'\<close> is \<open>t\<close> with new directories added, each of them a prefix
  of \<open>p\<close>. This is all \<^verbatim>\<open>mkdir\<close> can do to a file system.
\<close>

definition extends :: "fs \<Rightarrow> path \<Rightarrow> fs \<Rightarrow> bool" where
  "extends t p t' = (\<exists>ds. t' = t @ map (\<lambda>q. (q, Dir)) ds \<and> (\<forall>q \<in> set ds. q \<noteq> [] \<and> prefix q p))"

text \<open>The chain of directories that leads to a path.\<close>

definition chain :: "path \<Rightarrow> fs" where
  "chain p = map (\<lambda>k. (take k p, Dir)) [1..<Suc (length p)]"

text \<open>An installer of version 3.12.2 for the user \<^verbatim>\<open>root\<close>, and its staged prefix.\<close>

definition ins0 :: installer where
  "ins0 = \<lparr>version = ''3.12.2'', home = [''root''],
           source_directory = [''root'', ''.cache'', ''sevpy'', ''src'', ''Python-3.12.2'']\<rparr>"

definition sp0 :: path where
  "sp0 = [''root'', ''.cache'', ''python-installer'', ''stage'', ''python-3.12.2'',
          ''root'', ''.local'', ''opt'', ''python-3.12.2'']"

definition ivd0 :: path where
  "ivd0 = [''root'', ''.local'', ''opt'', ''python-3.12.2'']"

definition python312 :: node where
  "python312 = File True (Proc (Some (''Python 3.12.2'' @ [CHR 0x0A], [])) (Inr (''3.12.2'' @ [CHR 0x0A]))) ''ELF''"

text \<open>A staged tree with a working interpreter.\<close>

definition staged0 :: fs where
  "staged0 = chain sp0 @ [(sp0 @ [''bin''], Dir), (sp0 @ [''bin'', ''python3.12''], python312)]"

text \<open>
  The staged tree, and a dangling symbolic link where the permanent prefix is to be:
  \<^verbatim>\<open>exists()\<close> is false for it, and a directory cannot be renamed onto it.
\<close>

definition t_dangling_prefix :: fs where
  "t_dangling_prefix =
     staged0 @ [([''root'', ''.local''], Dir), ([''root'', ''.local'', ''opt''], Dir),
                (ivd0, Symlink True [''nowhere''])]"

text \<open>An installed prefix without a manifest, and one with it.\<close>

definition t_unmanaged :: fs where
  "t_unmanaged =
     staged0 @ [([''root'', ''.local''], Dir), ([''root'', ''.local'', ''opt''], Dir),
                (ivd0, Dir)]"

definition t_managed :: fs where
  "t_managed = t_unmanaged @ [(ivd0 @ [''.install-manifest''], File False no_prog [CHR 0x0A])]"

text \<open>
  The staged tree with a symbolic link \<^verbatim>\<open>lib/escape\<close> to a file in a sibling of the staged
  prefix, \<^verbatim>\<open>.../opt/python-3.12.2-evil/secret\<close>.
\<close>

definition evil_dir :: path where
  "evil_dir = butlast sp0 @ [''python-3.12.2-evil'']"

definition t_sibling_escape :: fs where
  "t_sibling_escape =
     staged0 @ [(sp0 @ [''lib''], Dir),
                (sp0 @ [''lib'', ''escape''], Symlink True (evil_dir @ [''secret''])),
                (evil_dir, Dir),
                (evil_dir @ [''secret''], File False no_prog ''key'')]"

text \<open>The staged tree with a symbolic link \<^verbatim>\<open>lib/dangling\<close> to a file that is not there.\<close>

definition t_broken_link :: fs where
  "t_broken_link =
     staged0 @ [(sp0 @ [''lib''], Dir),
                (sp0 @ [''lib'', ''dangling''], Symlink False [''missing.so''])]"

text \<open>
  What the specification asks of a candidate of \<^verbatim>\<open>find_python_binary\<close>: it is executable,
  it runs successfully under \<^verbatim>\<open>-V\<close>, and what it reports contains the version.
\<close>

definition qualifies :: "string \<Rightarrow> fs \<Rightarrow> path \<Rightarrow> bool" where
  "qualifies v t c =
     (access_x t c \<and> (case run_V t c of None \<Rightarrow> False | Some r \<Rightarrow> sublist v (version_output r)))"

text \<open>A staged prefix whose \<^verbatim>\<open>bin\<close> directory is empty.\<close>

definition t_empty_bin :: fs where
  "t_empty_bin = chain sp0 @ [(sp0 @ [''bin''], Dir)]"

text \<open>
  A staged prefix with four candidates: one that is not executable, one that fails to
  run, one of another version, and the interpreter.
\<close>

definition t_four_candidates :: fs where
  "t_four_candidates =
     chain sp0 @
     [(sp0 @ [''bin''], Dir),
      (sp0 @ [''bin'', ''python3.12''], python312),
      (sp0 @ [''bin'', ''python3.11''],
         File True (Proc (Some (''Python 3.12.1'' @ [CHR 0x0A], [])) (Inr ''3.12.1'')) ''ELF''),
      (sp0 @ [''bin'', ''python3.10''], File True (Proc None (Inl ''exit status 1'')) ''ELF''),
      (sp0 @ [''bin'', ''python3.1''], File False (Proc (Some (''Python 3.12.2'', [])) (Inr ''3.12.2'')) ''ELF'')]"

text \<open>An install step that does nothing and succeeds.\<close>

definition step_noop :: step where
  "step_noop t = (Completed, t)"

text \<open>A staging directory left behind, with and without a \<^verbatim>\<open>Makefile\<close> in the source tree.\<close>

definition t_stale_staging :: fs where
  "t_stale_staging =
     chain (staging_dir ins0) @ [(staging_dir ins0 @ [''old''], File False no_prog ''old'')]"

definition t_stale_staging_makefile :: fs where
  "t_stale_staging_makefile =
     t_stale_staging @
     [([''root'', ''.cache'', ''sevpy''], Dir),
      ([''root'', ''.cache'', ''sevpy'', ''src''], Dir),
      ([''root'', ''.cache'', ''sevpy'', ''src'', ''Python-3.12.2''], Dir),
      ([''root'', ''.cache'', ''sevpy'', ''src'', ''Python-3.12.2'', ''Makefile''],
         File False no_prog ''all:'')]"

text \<open>
  What the specification asks of a candidate in the registry: it is executable, it runs,
  and the version it reports is exactly the one of the directory name.
\<close>

definition reports_exactly :: "string \<Rightarrow> fs \<Rightarrow> path \<Rightarrow> bool" where
  "reports_exactly v t c =
     (access_x t c \<and> (case run_c t c of Inl e \<Rightarrow> False | Inr out \<Rightarrow> strip out = v))"

text \<open>\<^verbatim>\<open>shutil.which\<close> when \<^verbatim>\<open>PATH\<close> holds no interpreter.\<close>

definition which_none :: "string \<Rightarrow> path option" where
  "which_none n = None"

text \<open>
  An installation root with three prefixes: \<^verbatim>\<open>python-3.12.2\<close>, working and without a
  manifest; \<^verbatim>\<open>python-3.11.0\<close>, whose interpreter reports 3.11.9; and \<^verbatim>\<open>python-3.10.0\<close>,
  which has no \<^verbatim>\<open>bin\<close>.
\<close>

definition root0 :: path where
  "root0 = [''root'', ''.local'', ''opt'']"

definition t_registry :: fs where
  "t_registry =
     chain root0 @
     [(root0 @ [''python-3.12.2''], Dir),
      (root0 @ [''python-3.12.2'', ''bin''], Dir),
      (root0 @ [''python-3.12.2'', ''bin'', ''python3.12''], python312),
      (root0 @ [''python-3.11.0''], Dir),
      (root0 @ [''python-3.11.0'', ''bin''], Dir),
      (root0 @ [''python-3.11.0'', ''bin'', ''python3.11''],
         File True (Proc (Some (''Python 3.11.9'', [])) (Inr (''3.11.9'' @ [CHR 0x0A]))) ''ELF''),
      (root0 @ [''python-3.10.0''], Dir),
      (root0 @ [''python-3.10.0'', ''lib''], Dir)]"

text \<open>
  The staged tree with a link \<^verbatim>\<open>bin/python3\<close> to the interpreter; the same tree once the
  parents of the permanent prefix are made, once it is renamed, and once the manifest is
  written.
\<close>

definition staged1 :: fs where
  "staged1 = staged0 @ [(sp0 @ [''bin'', ''python3''], Symlink False [''python3.12''])]"

definition staged1_made :: fs where
  "staged1_made = staged1 @ [([''root'', ''.local''], Dir), ([''root'', ''.local'', ''opt''], Dir)]"

definition staged1_moved :: fs where
  "staged1_moved = snd (os_rename staged1_made (staged_prefix ins0) (install_version_dir ins0))"

definition staged1_listed :: fs where
  "staged1_listed = snd (write_manifest ins0 staged1_moved)"

text \<open>
  A staged tree that holds a directory named \<^verbatim>\<open>.install-manifest\<close>, and one that holds a
  file of that name.
\<close>

definition t_manifest_dir :: fs where
  "t_manifest_dir = staged0 @ [(sp0 @ [''.install-manifest''], Dir)]"

definition t_manifest_dir_made :: fs where
  "t_manifest_dir_made =
     t_manifest_dir @ [([''root'', ''.local''], Dir), ([''root'', ''.local'', ''opt''], Dir)]"

definition t_manifest_dir_moved :: fs where
  "t_manifest_dir_moved =
     snd (os_rename t_manifest_dir_made (staged_prefix ins0) (install_version_dir ins0))"

definition t_staged_manifest :: fs where
  "t_staged_manifest = staged0 @ [(sp0 @ [''.install-manifest''], File False no_prog ''mine'')]"

section \<open>Facts about the system calls\<close>

declare mkdir.simps [simp del]

lemma lookup_append:
  "lookup (t @ u) x = (case lookup t x of None \<Rightarrow> lookup u x | Some n \<Rightarrow> Some n)"
  by (auto simp: lookup_def map_add_def split: option.splits)

lemma os_mkdir_cases:
  assumes "os_mkdir t p = (r, t')"
  shows "(r = Inr () \<and> t' = t @ [(p, Dir)] \<and> lookup t p = None \<and> lookup t (butlast p) = Some Dir \<and> p \<noteq> [])
       \<or> (\<exists>e. r = Inl e \<and> t' = t \<and> is_FileNotFoundError e \<and> lookup t p = None \<and> lookup t (butlast p) = None)
       \<or> (\<exists>e. r = Inl e \<and> t' = t \<and> \<not> is_FileNotFoundError e)"
  using assms
  by (auto simp: os_mkdir_def lookup_def split: if_splits option.splits node.splits)

lemma parent_closed_snoc:
  assumes "parent_closed t" "lookup t (butlast p) = Some Dir" "p \<noteq> []"
  shows "parent_closed (t @ [(p, Dir)])"
  using assms
  by (auto simp: parent_closed_def lookup_append)

lemma extends_refl: "extends t p t"
  by (auto simp: extends_def intro: exI[of _ "[]"])

lemma extends_snoc: "p \<noteq> [] \<Longrightarrow> extends t p (t @ [(p, Dir)])"
  by (auto simp: extends_def intro: exI[of _ "[p]"])

lemma extends_trans:
  assumes "extends t q t'" "extends t' p t''" "prefix q p"
  shows "extends t p t''"
proof -
  from assms(1) obtain ds where ds: "t' = t @ map (\<lambda>q. (q, Dir)) ds" "\<forall>x \<in> set ds. x \<noteq> [] \<and> prefix x q"
    by (auto simp: extends_def)
  from assms(2) obtain es where es: "t'' = t' @ map (\<lambda>q. (q, Dir)) es" "\<forall>x \<in> set es. x \<noteq> [] \<and> prefix x p"
    by (auto simp: extends_def)
  have "t'' = t @ map (\<lambda>q. (q, Dir)) (ds @ es)" using ds es by simp
  moreover have "\<forall>x \<in> set (ds @ es). x \<noteq> [] \<and> prefix x p"
    using ds es assms(3) by (auto intro: prefix_order.trans)
  ultimately show ?thesis unfolding extends_def by blast
qed

lemma mkdir_extends:
  "mkdir pa ex t p = (r, t') \<Longrightarrow> extends t p t'"
proof (induction pa ex t p arbitrary: r t' rule: mkdir.induct)
  case (1 pa ex t p)
  obtain r0 t0 where o: "os_mkdir t p = (r0, t0)" by (cases "os_mkdir t p")
  from os_mkdir_cases[OF o] show ?case
  proof (elim disjE conjE exE)
    assume "r0 = Inr ()" "t0 = t @ [(p, Dir)]" "p \<noteq> []"
    then show ?thesis using "1.prems" o by (auto simp: mkdir.simps intro: extends_snoc)
  next
    fix e assume e: "r0 = Inl e" "t0 = t" "is_FileNotFoundError e"
    show ?thesis
    proof (cases "\<not> pa \<or> p = []")
      case True
      then show ?thesis using "1.prems" o e by (auto simp: mkdir.simps extends_refl)
    next
      case False
      obtain r1 t1 where m1: "mkdir True True t (butlast p) = (r1, t1)" by (cases "mkdir True True t (butlast p)")
      have x1: "extends t (butlast p) t1"
        using "1.IH"(1)[of "Inl e" t e r1 t1] o e False m1 by simp
      show ?thesis
      proof (cases r1)
        case (Inl e')
        then have "t' = t1" using "1.prems" o e False m1 by (simp add: mkdir.simps)
        then show ?thesis using x1 extends_trans[OF x1 extends_refl] by (simp add: prefixeq_butlast)
      next
        case (Inr u)
        then have m2: "mkdir False ex t1 p = (r, t')" using "1.prems" o e False m1 by (simp add: mkdir.simps)
        have "extends t1 p t'"
          using "1.IH"(2)[of "Inl e" t e "Inr u" t1 u r t'] o e False Inr m1 m2 by simp
        then show ?thesis using extends_trans[OF x1] by (simp add: prefixeq_butlast)
      qed
    qed
  next
    fix e assume e: "r0 = Inl e" "t0 = t" "\<not> is_FileNotFoundError e"
    then show ?thesis using "1.prems" o by (auto simp: mkdir.simps extends_refl split: if_splits)
  qed
qed

lemma mkdir_parent_closed:
  "mkdir pa ex t p = (r, t') \<Longrightarrow> parent_closed t \<Longrightarrow> parent_closed t'"
proof (induction pa ex t p arbitrary: r t' rule: mkdir.induct)
  case (1 pa ex t p)
  obtain r0 t0 where o: "os_mkdir t p = (r0, t0)" by (cases "os_mkdir t p")
  from os_mkdir_cases[OF o] show ?case
  proof (elim disjE conjE exE)
    assume "r0 = Inr ()" "t0 = t @ [(p, Dir)]" "p \<noteq> []" "lookup t (butlast p) = Some Dir"
    then show ?thesis using "1.prems" o by (auto simp: mkdir.simps intro: parent_closed_snoc)
  next
    fix e assume e: "r0 = Inl e" "t0 = t" "is_FileNotFoundError e"
    show ?thesis
    proof (cases "\<not> pa \<or> p = []")
      case True
      then show ?thesis using "1.prems" o e by (auto simp: mkdir.simps)
    next
      case False
      obtain r1 t1 where m1: "mkdir True True t (butlast p) = (r1, t1)" by (cases "mkdir True True t (butlast p)")
      have x1: "parent_closed t1"
        using "1.IH"(1)[of "Inl e" t e r1 t1] o e False m1 "1.prems" by simp
      show ?thesis
      proof (cases r1)
        case (Inl e')
        then have "t' = t1" using "1.prems" o e False m1 by (simp add: mkdir.simps)
        then show ?thesis using x1 by simp
      next
        case (Inr u)
        then have m2: "mkdir False ex t1 p = (r, t')" using "1.prems" o e False m1 by (simp add: mkdir.simps)
        show ?thesis
          using "1.IH"(2)[of "Inl e" t e "Inr u" t1 u r t'] o e False Inr m1 m2 x1 by simp
      qed
    qed
  next
    fix e assume e: "r0 = Inl e" "t0 = t" "\<not> is_FileNotFoundError e"
    then show ?thesis using "1.prems" o by (auto simp: mkdir.simps split: if_splits)
  qed
qed

lemma mkdir_existing_dir:
  assumes "lookup t p = Some Dir"
  shows "mkdir pa True t p = (Inr (), t)"
  using assms
  by (simp add: mkdir.simps os_mkdir_def is_dir_def stat_def)

lemma os_rename_failure_state:
  "fst (os_rename t s d) = Inl e \<Longrightarrow> snd (os_rename t s d) = t"
  by (auto simp: os_rename_def Let_def split: option.splits node.splits if_splits)

lemma extends_lookup_other:
  assumes "extends t p t'" "\<not> prefix x p"
  shows "lookup t' x = lookup t x"
proof -
  from assms(1) obtain ds where ds: "t' = t @ map (\<lambda>q. (q, Dir)) ds" "\<forall>q \<in> set ds. q \<noteq> [] \<and> prefix q p"
    by (auto simp: extends_def)
  have "map_of (map (\<lambda>q. (q, Dir)) ds) x = None"
    using ds(2) assms(2) by (auto simp: map_of_eq_None_iff image_iff)
  then have "lookup (map (\<lambda>q. (q, Dir)) ds) x = (if x = [] then Some Dir else None)"
    by (simp add: lookup_def)
  then show ?thesis unfolding ds(1) lookup_append
    by (auto simp: lookup_def split: option.splits)
qed

lemma extends_tree_at:
  assumes "extends t p t'" "\<not> prefix d p"
  shows "tree_at t' d = tree_at t d"
proof -
  from assms(1) obtain ds where ds: "t' = t @ map (\<lambda>q. (q, Dir)) ds" "\<forall>q \<in> set ds. q \<noteq> [] \<and> prefix q p"
    by (auto simp: extends_def)
  have "filter (\<lambda>e. prefix d (fst e)) (map (\<lambda>q. (q, Dir)) ds) = []"
    using ds(2) assms(2) by (auto simp: filter_empty_conv dest: prefix_order.trans)
  then show ?thesis unfolding ds(1) tree_at_def by simp
qed

lemma staging_not_above_global:
  "\<not> prefix (staging_dir ins) (butlast (install_version_dir ins))"
  by (simp add: staging_dir_def install_version_dir_def install_global_dir_def butlast_append)

lemma version_dir_not_above_parent:
  "\<not> prefix (install_version_dir ins) (butlast (install_version_dir ins))"
  by (simp add: install_version_dir_def butlast_append prefix_def)

section \<open>The commit\<close>

text \<open>
  Claim C1. Commit is all-or-nothing. In every state (a tree) where the staged prefix
  exists and the permanent prefix does not: if the parent of the permanent prefix is
  there (made by \<^verbatim>\<open>mkdir\<close>, leaving \<open>t1\<close>) and the rename of the staged prefix onto the
  permanent prefix fails with \<open>e\<close>, then \<^verbatim>\<open>commit_install\<close> raises the abort
  \<^verbatim>\<open>Commit failed: e\<close>, the permanent prefix does not exist afterwards, and everything at
  and below the staging root is as it was.
\<close>

theorem commit_install_rename_failure:
  assumes pc: "parent_closed t"
    and sp: "pexists t (staged_prefix ins)"
    and nx: "\<not> pexists t (install_version_dir ins)"
    and mk: "mkdir True True t (butlast (install_version_dir ins)) = (Inr (), t1)"
    and rn: "fst (os_rename t1 (staged_prefix ins) (install_version_dir ins)) = Inl e"
  shows "commit_install ins t = (Inl (InstallAbort (''Commit failed: '' @ str_of_error e)), t1)
       \<and> \<not> pexists t1 (install_version_dir ins)
       \<and> tree_at t1 (staging_dir ins) = tree_at t (staging_dir ins)"
proof -
  have st: "snd (os_rename t1 (staged_prefix ins) (install_version_dir ins)) = t1"
    using os_rename_failure_state[OF rn] .
  have c: "commit_install ins t = (Inl (InstallAbort (''Commit failed: '' @ str_of_error e)), t1)"
    using sp nx mk rn st
    by (cases "os_rename t1 (staged_prefix ins) (install_version_dir ins)")
       (simp add: commit_install_def)
  have ex: "extends t (butlast (install_version_dir ins)) t1"
    using mkdir_extends[OF mk] .
  have tr: "tree_at t1 (staging_dir ins) = tree_at t (staging_dir ins)"
    using extends_tree_at[OF ex staging_not_above_global] .
  have lk: "lookup t1 (install_version_dir ins) = lookup t (install_version_dir ins)"
    using extends_lookup_other[OF ex version_dir_not_above_parent] .
  have "\<not> pexists t1 (install_version_dir ins)"
  proof (cases "lookup t (install_version_dir ins)")
    case None
    then show ?thesis using lk by (simp add: pexists_def stat_def)
  next
    case (Some n)
    have ne: "install_version_dir ins \<noteq> []" by (simp add: install_version_dir_def)
    have "(install_version_dir ins, n) \<in> set t"
      using Some ne by (auto simp: lookup_def dest: map_of_SomeD)
    then have "lookup t (butlast (install_version_dir ins)) = Some Dir"
      using pc by (auto simp: parent_closed_def)
    then have "t1 = t" using mk mkdir_existing_dir[of t "butlast (install_version_dir ins)" True] by simp
    then show ?thesis using nx by simp
  qed
  then show ?thesis using c tr by simp
qed

theorem commit_install_rename_failure_witness:
  "parent_closed t_dangling_prefix
   \<and> pexists t_dangling_prefix (staged_prefix ins0)
   \<and> \<not> pexists t_dangling_prefix (install_version_dir ins0)
   \<and> fst (commit_install ins0 t_dangling_prefix)
       = Inl (InstallAbort (''Commit failed: Not a directory: /root/.local/opt/python-3.12.2''))
   \<and> \<not> pexists (snd (commit_install ins0 t_dangling_prefix)) (install_version_dir ins0)
   \<and> tree_at (snd (commit_install ins0 t_dangling_prefix)) (staging_dir ins0)
       = tree_at t_dangling_prefix (staging_dir ins0)"
proof -
  have h1: "parent_closed t_dangling_prefix" by code_simp
  have h2: "pexists t_dangling_prefix (staged_prefix ins0)" by code_simp
  have h3: "\<not> pexists t_dangling_prefix (install_version_dir ins0)" by code_simp
  have h4: "mkdir True True t_dangling_prefix (butlast (install_version_dir ins0))
            = (Inr (), t_dangling_prefix)" by code_simp
  have h5: "fst (os_rename t_dangling_prefix (staged_prefix ins0) (install_version_dir ins0))
            = Inl (NotADirectoryError ''Not a directory: /root/.local/opt/python-3.12.2'')"
    by code_simp
  show ?thesis
    using commit_install_rename_failure [OF h1 h2 h3 h4 h5] h1 h2 h3 by simp
qed

text \<open>
  Claim C2. Whenever the permanent prefix of a version exists, the collision check and
  \<^verbatim>\<open>commit_install\<close> both abort and leave the file system as it is. The check aborts with
  ``already installed'' when the manifest is there, and with ``unmanaged'' when it is not;
  the commit aborts with ``Nothing to commit'' when there is no staged prefix and with
  ``Install prefix already exists'' otherwise.
\<close>

theorem existing_prefix_aborts_untouched:
  assumes "pexists t (install_version_dir ins)"
  shows "check_prefix_collision ins t =
           (Inl (InstallAbort
              (if pexists t (manifest_path ins)
               then ''Python '' @ version ins @ '' is already installed at ''
                    @ path_str (install_version_dir ins)
               else ''Installation directory exists but is unmanaged: ''
                    @ path_str (install_version_dir ins))), t)
       \<and> commit_install ins t =
           (Inl (InstallAbort
              (if pexists t (staged_prefix ins)
               then ''Install prefix already exists: '' @ path_str (install_version_dir ins)
               else ''Nothing to commit: staged prefix missing'')), t)"
  using assms by (simp add: check_prefix_collision_def commit_install_def)

theorem existing_prefix_aborts_untouched_witness:
  "pexists t_unmanaged (install_version_dir ins0)
   \<and> check_prefix_collision ins0 t_unmanaged =
       (Inl (InstallAbort ''Installation directory exists but is unmanaged: /root/.local/opt/python-3.12.2''),
        t_unmanaged)
   \<and> check_prefix_collision ins0 t_managed =
       (Inl (InstallAbort ''Python 3.12.2 is already installed at /root/.local/opt/python-3.12.2''),
        t_managed)
   \<and> commit_install ins0 t_unmanaged =
       (Inl (InstallAbort ''Install prefix already exists: /root/.local/opt/python-3.12.2''),
        t_unmanaged)"
proof -
  have h: "pexists t_unmanaged (install_version_dir ins0)" by code_simp
  have h': "pexists t_managed (install_version_dir ins0)" by code_simp
  have m: "\<not> pexists t_unmanaged (manifest_path ins0)" by code_simp
  have m': "pexists t_managed (manifest_path ins0)" by code_simp
  have s: "pexists t_unmanaged (staged_prefix ins0)" by code_simp
  have p: "path_str (install_version_dir ins0) = ''/root/.local/opt/python-3.12.2''" by code_simp
  have v: "version ins0 = ''3.12.2''" by code_simp
  show ?thesis
    using existing_prefix_aborts_untouched [OF h] existing_prefix_aborts_untouched [OF h']
      h m m' s p v
    by simp
qed

section \<open>The verification of the staged tree\<close>

lemma find_python_binary_loop_find:
  "find_python_binary_loop v t cs =
     (case List.find (qualifies v t) cs of
        Some c \<Rightarrow> Inr c
      | None \<Rightarrow> Inl (InstallAbort ''No valid Python executable found in staged install''))"
  by (induction cs) (auto simp: qualifies_def split: option.splits)

lemma find_sorted_least:
  assumes "List.find P xs = Some x" "sorted xs" "y \<in> set xs" "y < x"
  shows "\<not> P y"
  using assms
proof (induction xs)
  case Nil then show ?case by simp
next
  case (Cons a xs)
  then show ?case by (auto split: if_splits)
qed

lemma sort_Nil_iff: "sort xs = [] \<longleftrightarrow> xs = []"
  by (metis length_sort length_0_conv)

lemma find_Some_holds: "List.find P xs = Some x \<Longrightarrow> P x \<and> x \<in> set xs"
  by (induction xs) (auto split: if_splits)

text \<open>
  Claim C5 (as amended). \<^verbatim>\<open>find_python_binary\<close> aborts with ``Missing bin directory'' when
  the staged prefix has no \<^verbatim>\<open>bin\<close>, and with ``No python3.x executable found in staged
  install'' when \<^verbatim>\<open>bin\<close> holds no \<^verbatim>\<open>python3.*\<close> entry. Otherwise it returns the first
  candidate of the sorted list that qualifies (executable, runs under \<^verbatim>\<open>-V\<close>, output
  contains the version), and raises ``No valid Python executable found in staged install''
  when none does. A returned candidate qualifies, and no candidate before it in the order
  does.
\<close>

theorem find_python_binary_first_qualifying:
  "find_python_binary ins t sp =
     (if \<not> pexists t (sp @ [''bin''])
      then Inl (InstallAbort (''Missing bin directory: '' @ path_str (sp @ [''bin''])))
      else if glob_python3 t (sp @ [''bin'']) = []
      then Inl (InstallAbort ''No python3.x executable found in staged install'')
      else (case List.find (qualifies (version ins) t) (sort (glob_python3 t (sp @ [''bin'']))) of
              Some c \<Rightarrow> Inr c
            | None \<Rightarrow> Inl (InstallAbort ''No valid Python executable found in staged install'')))
   \<and> (\<forall>c. find_python_binary ins t sp = Inr c \<longrightarrow>
          c \<in> set (glob_python3 t (sp @ [''bin'']))
          \<and> qualifies (version ins) t c
          \<and> (\<forall>c' \<in> set (glob_python3 t (sp @ [''bin''])). c' < c \<longrightarrow> \<not> qualifies (version ins) t c'))"
proof -
  let ?cs = "sort (glob_python3 t (sp @ [''bin'']))"
  have eq: "find_python_binary ins t sp =
     (if \<not> pexists t (sp @ [''bin''])
      then Inl (InstallAbort (''Missing bin directory: '' @ path_str (sp @ [''bin''])))
      else if glob_python3 t (sp @ [''bin'']) = []
      then Inl (InstallAbort ''No python3.x executable found in staged install'')
      else (case List.find (qualifies (version ins) t) ?cs of
              Some c \<Rightarrow> Inr c
            | None \<Rightarrow> Inl (InstallAbort ''No valid Python executable found in staged install'')))"
    by (simp add: find_python_binary_def Let_def find_python_binary_loop_find sort_Nil_iff)
  have "c \<in> set (glob_python3 t (sp @ [''bin'']))
          \<and> qualifies (version ins) t c
          \<and> (\<forall>c' \<in> set (glob_python3 t (sp @ [''bin''])). c' < c \<longrightarrow> \<not> qualifies (version ins) t c')"
    if r: "find_python_binary ins t sp = Inr c" for c
  proof -
    from r eq have f: "List.find (qualifies (version ins) t) ?cs = Some c"
      by (auto split: if_splits option.splits)
    from find_Some_holds[OF f] have a: "qualifies (version ins) t c" "c \<in> set ?cs" by auto
    have "\<not> qualifies (version ins) t c'" if "c' \<in> set (glob_python3 t (sp @ [''bin'']))" "c' < c" for c'
      using find_sorted_least[OF f, of c'] that by simp
    then show ?thesis using a by auto
  qed
  then show ?thesis using eq by blast
qed

theorem find_python_binary_first_qualifying_witness:
  "find_python_binary ins0 t_four_candidates sp0 = Inr (sp0 @ [''bin'', ''python3.12''])
   \<and> qualifies ''3.12.2'' t_four_candidates (sp0 @ [''bin'', ''python3.12''])
   \<and> \<not> qualifies ''3.12.2'' t_four_candidates (sp0 @ [''bin'', ''python3.11''])"
proof -
  have r: "find_python_binary ins0 t_four_candidates sp0 = Inr (sp0 @ [''bin'', ''python3.12''])"
    by code_simp
  have m: "sp0 @ [''bin'', ''python3.11''] \<in> set (glob_python3 t_four_candidates (sp0 @ [''bin'']))"
    by code_simp
  have l: "sp0 @ [''bin'', ''python3.11''] < sp0 @ [''bin'', ''python3.12'']"
    by code_simp
  have v: "version ins0 = ''3.12.2''" by code_simp
  show ?thesis
    using find_python_binary_first_qualifying [of ins0 t_four_candidates sp0] r m l v
    by auto
qed

theorem find_python_binary_empty_bin_counterexample:
  "glob_python3 t_empty_bin (sp0 @ [''bin'']) = []
   \<and> find_python_binary ins0 t_empty_bin sp0
       = Inl (InstallAbort ''No python3.x executable found in staged install'')"
  by code_simp

text \<open>
  Claim C3 at a failing input. The link \<^verbatim>\<open>lib/escape\<close> of the staged tree resolves to a
  file of the sibling directory \<^verbatim>\<open>python-3.12.2-evil\<close>, which is not beneath the staged
  prefix; its text form begins with the text form of the staged prefix, and
  \<^verbatim>\<open>verify_staging\<close> succeeds.
\<close>

theorem verify_staging_sibling_escape:
  "sp0 @ [''lib'', ''escape''] \<in> set (rglob t_sibling_escape (staged_prefix ins0))
   \<and> resolve t_sibling_escape (sp0 @ [''lib'', ''escape'']) = Some (evil_dir @ [''secret''])
   \<and> is_file t_sibling_escape (evil_dir @ [''secret''])
   \<and> \<not> prefix (staged_prefix ins0) (evil_dir @ [''secret''])
   \<and> verify_staging ins0 t_sibling_escape = Inr ()"
  by code_simp

text \<open>
  Claim C4 at a failing input. The link \<^verbatim>\<open>lib/dangling\<close> of the staged tree is broken: it
  points to \<^verbatim>\<open>missing.so\<close>, which does not exist. \<^verbatim>\<open>verify_staging\<close> succeeds.
\<close>

theorem verify_staging_broken_link:
  "sp0 @ [''lib'', ''dangling''] \<in> set (rglob t_broken_link (staged_prefix ins0))
   \<and> is_symlink t_broken_link (sp0 @ [''lib'', ''dangling''])
   \<and> \<not> pexists t_broken_link (sp0 @ [''lib'', ''dangling''])
   \<and> verify_staging ins0 t_broken_link = Inr ()"
  by code_simp

text \<open>No run of \<^verbatim>\<open>verify_staging\<close> ends in the abort ``Broken symlink''.\<close>

lemma verify_staging_loop_no_broken_symlink:
  "verify_staging_loop t sp ps \<noteq> Inl (InstallAbort (''Broken symlink: '' @ x))"
  by (induction ps) (auto simp: path_resolve_def split: option.splits)

lemma verify_staging_no_broken_symlink:
  "verify_staging ins t \<noteq> Inl (InstallAbort (''Broken symlink: '' @ x))"
proof (cases "find_python_binary ins t (staged_prefix ins)")
  case (Inl e)
  then have "e \<noteq> InstallAbort (''Broken symlink: '' @ x)"
    by (auto simp: find_python_binary_def find_python_binary_loop_find Let_def
        split: option.splits if_splits)
  then show ?thesis using Inl by (simp add: verify_staging_def)
next
  case (Inr b)
  then show ?thesis
    using verify_staging_loop_no_broken_symlink [of t "staged_prefix ins" "rglob t (staged_prefix ins)" x]
    by (simp add: verify_staging_def)
qed

section \<open>The staged install\<close>

text \<open>
  Claim C6 (as amended). A call of \<^verbatim>\<open>staged_install\<close> in a state where the staging
  directory exists aborts and leaves the file system as it is, whatever the install step
  would do: with ``Staging directory already exists'' when the source tree has a
  \<^verbatim>\<open>Makefile\<close>, and with ``Makefile missing'' when it has none.
\<close>

theorem staged_install_existing_staging:
  assumes "pexists t (staging_dir ins)"
  shows "staged_install ins altinstall enable_tk t =
           (Inl (InstallAbort
              (if pexists t (source_directory ins @ [''Makefile''])
               then ''Staging directory already exists: '' @ path_str (staging_dir ins)
               else ''Makefile missing '' @ emdash @ '' did you run configure()?'')), t)"
  using assms by (simp add: staged_install_def)

theorem staged_install_existing_staging_witness:
  "pexists t_stale_staging_makefile (staging_dir ins0)
   \<and> staged_install ins0 step_noop False t_stale_staging_makefile =
       (Inl (InstallAbort
          ''Staging directory already exists: /root/.cache/python-installer/stage/python-3.12.2''),
        t_stale_staging_makefile)"
proof -
  have h: "pexists t_stale_staging_makefile (staging_dir ins0)" by code_simp
  have m: "pexists t_stale_staging_makefile (source_directory ins0 @ [''Makefile''])" by code_simp
  have p: "path_str (staging_dir ins0) = ''/root/.cache/python-installer/stage/python-3.12.2''"
    by code_simp
  show ?thesis
    using staged_install_existing_staging [OF h, of step_noop False] h m p by simp
qed

theorem staged_install_makefile_first_counterexample:
  "pexists t_stale_staging (staging_dir ins0)
   \<and> fst (staged_install ins0 step_noop True t_stale_staging) =
       Inl (InstallAbort (''Makefile missing '' @ emdash @ '' did you run configure()?''))"
  by code_simp

section \<open>The successful commit\<close>

lemma parent_closed_ancestors:
  "parent_closed t \<Longrightarrow> lookup t p \<noteq> None \<Longrightarrow> strict_prefix q p \<Longrightarrow> lookup t q = Some Dir"
proof (induction p rule: rev_induct)
  case Nil
  then show ?case by simp
next
  case (snoc x ps)
  have "map_of t (ps @ [x]) \<noteq> None" using snoc.prems(2) by (simp add: lookup_def)
  then obtain n where "(ps @ [x], n) \<in> set t" by (auto dest: map_of_SomeD)
  then have d: "lookup t ps = Some Dir" using snoc.prems(1) by (force simp: parent_closed_def)
  from snoc.prems(3) have "prefix q ps" by (auto simp: strict_prefix_def)
  then show ?case using d snoc.IH snoc.prems(1) by (cases "q = ps") (auto simp: strict_prefix_def)
qed

lemma pexists_lookup: "pexists t p \<Longrightarrow> lookup t p \<noteq> None"
  by (auto simp: pexists_def stat_def split: option.splits)

lemma lookup_Dir_pexists: "lookup t p = Some Dir \<Longrightarrow> pexists t p"
  by (simp add: pexists_def stat_def)

lemma keys_lookup: "p \<in> fst ` set t \<Longrightarrow> lookup t p \<noteq> None"
  by (cases "map_of t p") (auto simp: lookup_def map_of_eq_None_iff)

lemma map_of_map_key:
  "(\<forall>k \<in> fst ` set xs. f k = f q \<longrightarrow> k = q) \<Longrightarrow>
   map_of (map (\<lambda>e. (f (fst e), snd e)) xs) (f q) = map_of xs q"
  by (induction xs) auto

lemma map_of_filter_key:
  "P q \<Longrightarrow> map_of (filter (\<lambda>e. P (fst e)) xs) q = map_of xs q"
  by (induction xs) auto

lemma filter_map_key:
  "(\<forall>k \<in> set ks. P (f k) = Q k) \<Longrightarrow> filter P (map f ks) = map f (filter Q ks)"
  by (induction ks) auto

lemma os_rename_success:
  assumes "os_rename t s d = (Inr (), t')" "s \<noteq> d"
  shows "t' = map (\<lambda>e. (move_path s d (fst e), snd e)) (filter (\<lambda>e. fst e \<noteq> d) t)"
  using assms
  by (auto simp: os_rename_def Let_def split: option.splits node.splits if_splits)

lemma move_path_under: "prefix s q \<Longrightarrow> move_path s d q = d @ drop (length s) q"
  by (simp add: move_path_def)

lemma move_path_other: "\<not> prefix s q \<Longrightarrow> move_path s d q = q"
  by (simp add: move_path_def)

lemma drop_prefix_eq:
  "prefix s k \<Longrightarrow> prefix s q \<Longrightarrow> drop (length s) k = drop (length s) q \<Longrightarrow> k = q"
  by (auto simp: prefix_def)

text \<open>The paths of the installer.\<close>

lemma staged_prefix_not_above_version_dir: "\<not> prefix (staged_prefix ins) (install_version_dir ins)"
  by (simp add: staged_prefix_def staging_dir_def install_version_dir_def install_global_dir_def)

lemma staging_not_above_version_dir: "\<not> prefix (staging_dir ins) (install_version_dir ins @ x)"
  by (simp add: staging_dir_def install_version_dir_def install_global_dir_def)

lemma version_dir_not_above_staging: "\<not> prefix (install_version_dir ins) (staging_dir ins @ x)"
  by (simp add: staging_dir_def install_version_dir_def install_global_dir_def)

lemma staging_above_staged_prefix: "strict_prefix (staging_dir ins) (staged_prefix ins)"
  by (simp add: staged_prefix_def install_version_dir_def strict_prefix_def)

lemma staged_prefix_not_above_parent:
  "\<not> prefix (staged_prefix ins) (butlast (install_version_dir ins))"
  by (simp add: staged_prefix_def staging_dir_def install_version_dir_def install_global_dir_def
      butlast_append)

lemma rename_facts:
  assumes pc: "parent_closed t"
    and sp: "pexists t (staged_prefix ins)"
    and nx: "\<not> pexists t (install_version_dir ins)"
    and mk: "mkdir True True t (butlast (install_version_dir ins)) = (Inr (), t1)"
    and rn: "os_rename t1 (staged_prefix ins) (install_version_dir ins) = (Inr (), t2)"
  shows "rglob t2 (install_version_dir ins)
           = map (move_path (staged_prefix ins) (install_version_dir ins)) (rglob t (staged_prefix ins))"
    and "\<And>q. prefix (staged_prefix ins) q \<Longrightarrow>
           lookup t2 (move_path (staged_prefix ins) (install_version_dir ins) q) = lookup t q"
    and "\<And>q. \<not> prefix (staged_prefix ins) q \<Longrightarrow> \<not> prefix (install_version_dir ins) q \<Longrightarrow>
           lookup t2 q = lookup t1 q"
    and "lookup t2 (staging_dir ins) = Some Dir"
proof -
  let ?sp = "staged_prefix ins" and ?ivd = "install_version_dir ins"
  let ?mv = "move_path ?sp ?ivd"
  let ?xs = "filter (\<lambda>e. fst e \<noteq> ?ivd) t1"
  have ex: "extends t (butlast ?ivd) t1" using mkdir_extends[OF mk] .
  have pc1: "parent_closed t1" using mkdir_parent_closed[OF mk pc] .
  have ne: "?sp \<noteq> ?ivd" using staged_prefix_not_above_version_dir[of ins] by auto
  have ivd_ne: "?ivd \<noteq> []" by (simp add: install_version_dir_def)
  have sp_ne: "?sp \<noteq> []" by (simp add: staged_prefix_def install_version_dir_def)
  have t2: "t2 = map (\<lambda>e. (?mv (fst e), snd e)) ?xs"
    using os_rename_success[OF rn ne] .
  have lk_ivd: "lookup t1 ?ivd = lookup t ?ivd"
    using extends_lookup_other[OF ex version_dir_not_above_parent] .
  have no_below: "\<not> strict_prefix ?ivd k" if "k \<in> fst ` set t1" for k
  proof
    assume s: "strict_prefix ?ivd k"
    have "lookup t1 ?ivd = Some Dir"
      using parent_closed_ancestors[OF pc1 keys_lookup[OF that] s] .
    then have "pexists t ?ivd" using lk_ivd lookup_Dir_pexists by simp
    then show False using nx by simp
  qed
  have keys_xs: "\<not> prefix ?ivd k" if "k \<in> fst ` set ?xs" for k
  proof -
    from that have "k \<in> fst ` set t1" "k \<noteq> ?ivd" by auto
    then show ?thesis using no_below[of k] by (auto simp: strict_prefix_def)
  qed
  have inj_under: "?mv k = ?mv q \<longrightarrow> k = q" if "k \<in> fst ` set ?xs" "prefix ?sp q" for k q
  proof (cases "prefix ?sp k")
    case True
    then show ?thesis using that(2) by (auto simp: move_path_under intro: drop_prefix_eq)
  next
    case False
    then show ?thesis using that keys_xs[of k] by (auto simp: move_path_under move_path_other)
  qed
  have inj_other: "?mv k = ?mv q \<longrightarrow> k = q"
    if "k \<in> fst ` set ?xs" "\<not> prefix ?sp q" "\<not> prefix ?ivd q" for k q
  proof (cases "prefix ?sp k")
    case True
    then show ?thesis using that(2,3) by (auto simp: move_path_under move_path_other)
  next
    case False
    then show ?thesis using that by (auto simp: move_path_other)
  qed
  show under: "lookup t2 (?mv q) = lookup t q" if q: "prefix ?sp q" for q
  proof -
    have qne: "q \<noteq> ?ivd" using q staged_prefix_not_above_version_dir[of ins] by auto
    have "map_of t2 (?mv q) = map_of ?xs q"
      unfolding t2 using inj_under[OF _ q] by (intro map_of_map_key) blast
    also have "\<dots> = map_of t1 q"
      using map_of_filter_key[of "\<lambda>k. k \<noteq> ?ivd" q t1] qne by simp
    finally have m: "map_of t2 (?mv q) = map_of t1 q" .
    have "\<not> prefix q (butlast ?ivd)"
      using q staged_prefix_not_above_parent[of ins] prefix_order.trans by blast
    then have "lookup t1 q = lookup t q" using extends_lookup_other[OF ex] by simp
    moreover have "q \<noteq> []" using q sp_ne by auto
    moreover have "?mv q \<noteq> []" using q ivd_ne by (simp add: move_path_under)
    ultimately show ?thesis using m by (simp add: lookup_def)
  qed
  show other: "lookup t2 q = lookup t1 q" if q: "\<not> prefix ?sp q" "\<not> prefix ?ivd q" for q
  proof -
    have qne: "q \<noteq> ?ivd" using q by auto
    have "map_of t2 (?mv q) = map_of ?xs q"
      unfolding t2 using inj_other[OF _ q] by (intro map_of_map_key) blast
    also have "\<dots> = map_of t1 q"
      using map_of_filter_key[of "\<lambda>k. k \<noteq> ?ivd" q t1] qne by simp
    finally show ?thesis using q by (simp add: lookup_def move_path_other)
  qed
  show "rglob t2 ?ivd = map ?mv (rglob t ?sp)"
  proof -
    have a: "map fst t2 = map ?mv (map fst ?xs)" unfolding t2 by simp
    have b: "filter (strict_prefix ?ivd) (map ?mv (map fst ?xs))
             = map ?mv (filter (strict_prefix ?sp) (map fst ?xs))"
    proof -
      have "strict_prefix ?ivd (?mv k) = strict_prefix ?sp k" if "k \<in> fst ` set ?xs" for k
      proof (cases "prefix ?sp k")
        case True
        then show ?thesis by (auto simp: move_path_under strict_prefix_def prefix_def)
      next
        case False
        then show ?thesis using keys_xs[OF that] by (auto simp: move_path_other strict_prefix_def)
      qed
      then show ?thesis by (intro filter_map_key) simp
    qed
    have c: "filter (strict_prefix ?sp) (map fst ?xs) = filter (strict_prefix ?sp) (map fst t1)"
    proof -
      have "\<not> strict_prefix ?sp ?ivd" using staged_prefix_not_above_version_dir[of ins]
        by (auto simp: strict_prefix_def)
      then have "filter (\<lambda>e. strict_prefix ?sp (fst e)) ?xs = filter (\<lambda>e. strict_prefix ?sp (fst e)) t1"
        by (auto intro: filter_cong)
      then show ?thesis by (simp add: filter_map comp_def)
    qed
    have d: "filter (strict_prefix ?sp) (map fst t1) = filter (strict_prefix ?sp) (map fst t)"
    proof -
      from ex obtain ds where ds: "t1 = t @ map (\<lambda>q. (q, Dir)) ds"
        "\<forall>q \<in> set ds. q \<noteq> [] \<and> prefix q (butlast ?ivd)"
        by (auto simp: extends_def)
      have "\<not> strict_prefix ?sp q" if "q \<in> set ds" for q
        using that ds(2) staged_prefix_not_above_parent[of ins] prefix_order.trans
        by (auto simp: strict_prefix_def)
      then have "filter (strict_prefix ?sp) ds = []" by (auto simp: filter_empty_conv)
      then show ?thesis unfolding ds(1) by (simp add: comp_def)
    qed
    show ?thesis unfolding rglob_def a b c d ..
  qed
  show "lookup t2 (staging_dir ins) = Some Dir"
  proof -
    have "lookup t ?sp \<noteq> None" using pexists_lookup[OF sp] .
    then have "lookup t (staging_dir ins) = Some Dir"
      using parent_closed_ancestors[OF pc _ staging_above_staged_prefix] by simp
    then have "lookup t1 (staging_dir ins) = Some Dir"
      using extends_lookup_other[OF ex staging_not_above_global] by simp
    moreover have "\<not> prefix ?sp (staging_dir ins)"
      using staging_above_staged_prefix[of ins] by (auto simp: strict_prefix_def)
    moreover have "\<not> prefix ?ivd (staging_dir ins)"
      using version_dir_not_above_staging[of ins "[]"] by simp
    ultimately show ?thesis using other by simp
  qed
qed

lemma map_of_replace:
  "map_of (map (\<lambda>e. if fst e = w then (w, n) else e) t) q
     = (if q = w \<and> map_of t w \<noteq> None then Some n else map_of t q)"
  by (induction t) auto

lemma lookup_put_other: "q \<noteq> w \<Longrightarrow> lookup (put t w n) q = lookup t q"
  by (auto simp: put_def lookup_def map_of_replace map_add_def split: option.splits)

lemma write_at_success:
  assumes "write_at t w s = (Inr (), t')"
  shows "\<exists>x. t' = put t w (File x no_prog s) \<and> lookup t w \<noteq> Some Dir"
  using assms by (auto simp: write_at_def split: option.splits node.splits)

lemma write_text_success:
  assumes "write_text t p s = (Inr (), t')"
  shows "\<exists>w x. t' = put t w (File x no_prog s) \<and> lookup t w \<noteq> Some Dir"
  using assms write_at_success
  by (auto simp: write_text_def split: option.splits node.splits) blast+

lemma write_at_failure_state: "write_at t w s = (Inl e, t') \<Longrightarrow> t' = t"
  by (auto simp: write_at_def split: option.splits node.splits)

lemma write_text_failure_state: "write_text t p s = (Inl e, t') \<Longrightarrow> t' = t"
  by (auto simp: write_text_def split: option.splits node.splits dest: write_at_failure_state)

lemma write_manifest_failure_state: "write_manifest ins t = (Inl e, t') \<Longrightarrow> t' = t"
  by (auto simp: write_manifest_def split: prod.splits sum.splits dest: write_text_failure_state)

lemma write_manifest_keeps_dir:
  assumes "write_manifest ins t = (Inr (), t')" "lookup t d = Some Dir"
  shows "lookup t' d = Some Dir"
proof -
  from assms(1) obtain t'' where
    w: "write_text t (manifest_path ins) (join [CHR 0x0A] (manifest_entries ins t) @ [CHR 0x0A]) = (Inr (), t'')"
    and e: "t' = t''"
    by (auto simp: write_manifest_def split: prod.splits sum.splits)
  from write_text_success[OF w] obtain w' x where
    "t'' = put t w' (File x no_prog (join [CHR 0x0A] (manifest_entries ins t) @ [CHR 0x0A]))"
    "lookup t w' \<noteq> Some Dir" by blast
  moreover from this assms(2) have "d \<noteq> w'" by auto
  ultimately show ?thesis using assms(2) e by (simp add: lookup_put_other)
qed

lemma rmtree_dir_gone:
  assumes "lookup t d = Some Dir"
  shows "rmtree_ignore_errors t d = filter (\<lambda>e. \<not> prefix d (fst e)) t"
    and "tree_at (rmtree_ignore_errors t d) d = []"
  using assms by (auto simp: rmtree_ignore_errors_def rmtree_def tree_at_def filter_empty_conv)

text \<open>
  Claim C7 (as amended). In every commit attempt (on a tree) where the rename of the
  staged prefix onto the permanent prefix succeeds, leaving \<open>t2\<close>: if the manifest is
  written, \<^verbatim>\<open>commit_install\<close> returns after removing the staging root, and nothing is left
  at or below it; if the manifest write fails, \<^verbatim>\<open>commit_install\<close> raises that abort at
  once, the removal is not run, and the staging root is still there.
\<close>

theorem commit_install_staging_cleanup:
  assumes pc: "parent_closed t"
    and sp: "pexists t (staged_prefix ins)"
    and nx: "\<not> pexists t (install_version_dir ins)"
    and mk: "mkdir True True t (butlast (install_version_dir ins)) = (Inr (), t1)"
    and rn: "os_rename t1 (staged_prefix ins) (install_version_dir ins) = (Inr (), t2)"
  shows "(\<forall>t3. write_manifest ins t2 = (Inr (), t3) \<longrightarrow>
            commit_install ins t = (Inr (), rmtree_ignore_errors t3 (staging_dir ins))
            \<and> tree_at (rmtree_ignore_errors t3 (staging_dir ins)) (staging_dir ins) = [])
       \<and> (\<forall>e t3. write_manifest ins t2 = (Inl e, t3) \<longrightarrow>
            commit_install ins t = (Inl e, t2)
            \<and> lookup t2 (staging_dir ins) = Some Dir)"
proof -
  have st: "lookup t2 (staging_dir ins) = Some Dir"
    using rename_facts(4)[OF pc sp nx mk rn] .
  have ok: "commit_install ins t = (Inr (), rmtree_ignore_errors t3 (staging_dir ins))
            \<and> tree_at (rmtree_ignore_errors t3 (staging_dir ins)) (staging_dir ins) = []"
    if w: "write_manifest ins t2 = (Inr (), t3)" for t3
  proof -
    have "lookup t3 (staging_dir ins) = Some Dir" using write_manifest_keeps_dir[OF w st] .
    then have "tree_at (rmtree_ignore_errors t3 (staging_dir ins)) (staging_dir ins) = []"
      by (rule rmtree_dir_gone(2))
    moreover have "commit_install ins t = (Inr (), rmtree_ignore_errors t3 (staging_dir ins))"
      using sp nx mk rn w by (simp add: commit_install_def)
    ultimately show ?thesis by simp
  qed
  have bad: "commit_install ins t = (Inl e, t2) \<and> lookup t2 (staging_dir ins) = Some Dir"
    if w: "write_manifest ins t2 = (Inl e, t3)" for e t3
  proof -
    have "t3 = t2" using write_manifest_failure_state[OF w] .
    then show ?thesis using sp nx mk rn w st by (simp add: commit_install_def)
  qed
  show ?thesis using ok bad by blast
qed

theorem commit_install_staging_cleanup_witness:
  "parent_closed staged1
   \<and> pexists staged1 (staged_prefix ins0)
   \<and> \<not> pexists staged1 (install_version_dir ins0)
   \<and> commit_install ins0 staged1 = (Inr (), rmtree_ignore_errors staged1_listed (staging_dir ins0))
   \<and> tree_at (rmtree_ignore_errors staged1_listed (staging_dir ins0)) (staging_dir ins0) = []
   \<and> parent_closed t_manifest_dir
   \<and> pexists t_manifest_dir (staged_prefix ins0)
   \<and> \<not> pexists t_manifest_dir (install_version_dir ins0)
   \<and> commit_install ins0 t_manifest_dir =
       (Inl (InstallAbort
          ''Failed to write manifest: Is a directory: /root/.local/opt/python-3.12.2/.install-manifest''),
        t_manifest_dir_moved)
   \<and> lookup t_manifest_dir_moved (staging_dir ins0) = Some Dir"
proof -
  have a1: "parent_closed staged1" by code_simp
  have a2: "pexists staged1 (staged_prefix ins0)" by code_simp
  have a3: "\<not> pexists staged1 (install_version_dir ins0)" by code_simp
  have a4: "mkdir True True staged1 (butlast (install_version_dir ins0)) = (Inr (), staged1_made)"
    by code_simp
  have a5: "os_rename staged1_made (staged_prefix ins0) (install_version_dir ins0)
            = (Inr (), staged1_moved)" by code_simp
  have a6: "write_manifest ins0 staged1_moved = (Inr (), staged1_listed)" by code_simp
  have b1: "parent_closed t_manifest_dir" by code_simp
  have b2: "pexists t_manifest_dir (staged_prefix ins0)" by code_simp
  have b3: "\<not> pexists t_manifest_dir (install_version_dir ins0)" by code_simp
  have b4: "mkdir True True t_manifest_dir (butlast (install_version_dir ins0))
            = (Inr (), t_manifest_dir_made)"
    by code_simp
  have b5: "os_rename t_manifest_dir_made (staged_prefix ins0) (install_version_dir ins0)
            = (Inr (), t_manifest_dir_moved)" by code_simp
  have b6: "write_manifest ins0 t_manifest_dir_moved =
            (Inl (InstallAbort
               ''Failed to write manifest: Is a directory: /root/.local/opt/python-3.12.2/.install-manifest''),
             t_manifest_dir_moved)" by code_simp
  show ?thesis
    using commit_install_staging_cleanup [OF a1 a2 a3 a4 a5] a6
      commit_install_staging_cleanup [OF b1 b2 b3 b4 b5] b6 a1 a2 a3 b1 b2 b3
    by blast
qed

theorem commit_install_manifest_failure_counterexample:
  "pexists t_manifest_dir (staged_prefix ins0)
   \<and> \<not> pexists t_manifest_dir (install_version_dir ins0)
   \<and> fst (commit_install ins0 t_manifest_dir) =
       Inl (InstallAbort
          ''Failed to write manifest: Is a directory: /root/.local/opt/python-3.12.2/.install-manifest'')
   \<and> is_dir (snd (commit_install ins0 t_manifest_dir)) (install_version_dir ins0)
   \<and> is_dir (snd (commit_install ins0 t_manifest_dir)) (staging_dir ins0)
   \<and> is_dir (snd (commit_install ins0 t_manifest_dir)) (staging_dir ins0 @ [''root'', ''.local'', ''opt''])"
  by code_simp

lemma file_or_link:
  "(is_file t p \<or> is_symlink t p) = (\<exists>n. lookup t p = Some n \<and> n \<noteq> Dir)"
  by (auto simp: is_file_def is_symlink_def stat_def split: option.splits node.splits)

lemma commit_install_success_steps:
  assumes "commit_install ins t = (Inr (), t')"
  obtains t1 t2 t3 where
    "pexists t (staged_prefix ins)" "\<not> pexists t (install_version_dir ins)"
    "mkdir True True t (butlast (install_version_dir ins)) = (Inr (), t1)"
    "os_rename t1 (staged_prefix ins) (install_version_dir ins) = (Inr (), t2)"
    "write_manifest ins t2 = (Inr (), t3)"
    "t' = rmtree_ignore_errors t3 (staging_dir ins)"
  using assms
  by (auto simp: commit_install_def split: if_splits prod.splits sum.splits)

text \<open>
  Claim C10 (as amended). For every successful commit (on a tree) whose staged prefix
  held no entry named \<^verbatim>\<open>.install-manifest\<close>: the manifest is a new regular file whose text
  is the listed paths joined by newlines, with a newline at the end; the listed paths are
  the files and symbolic links (not the directories) of the staged tree at their new
  place under the permanent prefix, in walk order; they are exactly the files and
  symbolic links under the permanent prefix after the commit other than the manifest;
  and the path of the manifest is not among them.
\<close>

theorem manifest_lists_tree_without_itself:
  assumes pc: "parent_closed t"
    and nm: "lookup t (staged_prefix ins @ [''.install-manifest'']) = None"
    and ok: "commit_install ins t = (Inr (), t')"
  shows "\<exists>entries.
           lookup t' (manifest_path ins)
             = Some (File False no_prog (join [CHR 0x0A] (map path_str entries) @ [CHR 0x0A]))
         \<and> entries = map (move_path (staged_prefix ins) (install_version_dir ins))
                        (filter (\<lambda>p. lookup t p \<noteq> Some Dir) (rglob t (staged_prefix ins)))
         \<and> entries = filter (\<lambda>p. p \<noteq> manifest_path ins \<and> lookup t' p \<noteq> Some Dir)
                        (rglob t' (install_version_dir ins))
         \<and> manifest_path ins \<notin> set entries"
proof -
  let ?sp = "staged_prefix ins" and ?ivd = "install_version_dir ins"
  let ?mp = "manifest_path ins" and ?st = "staging_dir ins"
  let ?mv = "move_path ?sp ?ivd"
  let ?nl = "[CHR 0x0A]"
  from ok obtain t1 t2 t3 where
    sp: "pexists t ?sp" and nx: "\<not> pexists t ?ivd"
    and mk: "mkdir True True t (butlast ?ivd) = (Inr (), t1)"
    and rn: "os_rename t1 ?sp ?ivd = (Inr (), t2)"
    and wm: "write_manifest ins t2 = (Inr (), t3)"
    and t': "t' = rmtree_ignore_errors t3 ?st"
    by (rule commit_install_success_steps)
  note rf = rename_facts[OF pc sp nx mk rn]
  define ks where "ks = rglob t ?sp"
  define entries where "entries = map ?mv (filter (\<lambda>p. lookup t p \<noteq> Some Dir) ks)"
  have ks_under: "prefix ?sp k \<and> k \<in> fst ` set t" if "k \<in> set ks" for k
    using that by (auto simp: ks_def rglob_def strict_prefix_def)
  have mp_mv: "?mp = ?mv (?sp @ [''.install-manifest''])"
    by (simp add: move_path_under manifest_path_def)
  have mp2: "lookup t2 ?mp = None"
    using rf(2)[of "?sp @ [''.install-manifest'']"] nm mp_mv by simp
  have mp_ne: "?mp \<noteq> []" by (simp add: manifest_path_def)
  have mp_keys2: "?mp \<notin> fst ` set t2" using mp2 keys_lookup by blast
  have mo2: "map_of t2 ?mp = None" using mp2 mp_ne by (simp add: lookup_def)
  \<comment> \<open>what is enumerated\<close>
  have sel: "(is_file t2 (?mv k) \<or> is_symlink t2 (?mv k)) = (lookup t k \<noteq> Some Dir)"
    if "k \<in> set ks" for k
  proof -
    have "lookup t k \<noteq> None" using ks_under[OF that] keys_lookup by blast
    then show ?thesis using rf(2)[of k] ks_under[OF that] by (auto simp: file_or_link)
  qed
  have me: "manifest_entries ins t2 = map path_str entries"
  proof -
    have "filter (\<lambda>p. is_file t2 p \<or> is_symlink t2 p) (map ?mv ks)
          = map ?mv (filter (\<lambda>p. lookup t p \<noteq> Some Dir) ks)"
      using sel by (intro filter_map_key) simp
    then show ?thesis by (simp add: manifest_entries_def rf(1) ks_def entries_def)
  qed
  \<comment> \<open>the write\<close>
  have par: "lookup t2 ?ivd = lookup t ?sp" using rf(2)[of ?sp] by (simp add: move_path_under)
  have wt: "write_text t2 ?mp (join ?nl (map path_str entries) @ ?nl) = (Inr (), t3)"
    using wm me by (auto simp: write_manifest_def split: prod.splits sum.splits)
  have t3: "t3 = t2 @ [(?mp, File False no_prog (join ?nl (map path_str entries) @ ?nl))]"
    using wt mp2 mo2
    by (auto simp: write_text_def write_at_def put_def manifest_path_def split: option.splits node.splits)
  \<comment> \<open>the cleanup\<close>
  have "lookup t3 ?st = Some Dir" using write_manifest_keeps_dir[OF wm rf(4)] .
  then have t'f: "t' = filter (\<lambda>e. \<not> prefix ?st (fst e)) t3"
    using t' rmtree_dir_gone(1) by simp
  have keep: "\<not> prefix ?st q" if "prefix ?ivd q" for q
    using that staging_not_above_version_dir[of ins] by (auto simp: prefix_def)
  have lk': "lookup t' q = lookup t3 q" if "prefix ?ivd q" for q
    using map_of_filter_key[of "\<lambda>k. \<not> prefix ?st k" q t3] keep[OF that]
    by (simp add: t'f lookup_def)
  have man: "lookup t' ?mp = Some (File False no_prog (join ?nl (map path_str entries) @ ?nl))"
    using lk'[of ?mp] mo2 mp_ne by (simp add: t3 lookup_def manifest_path_def map_add_def)
  \<comment> \<open>the tree under the prefix afterwards\<close>
  have rg3: "rglob t3 ?ivd = map ?mv ks @ [?mp]"
    by (simp add: rglob_def t3 manifest_path_def strict_prefix_def rf(1)[unfolded rglob_def] ks_def rglob_def)
  have rg': "rglob t' ?ivd = map ?mv ks @ [?mp]"
  proof -
    have "filter (\<lambda>e. strict_prefix ?ivd (fst e)) (filter (\<lambda>e. \<not> prefix ?st (fst e)) t3)
          = filter (\<lambda>e. strict_prefix ?ivd (fst e)) t3"
      using keep by (auto simp: strict_prefix_def intro: filter_cong)
    then have "rglob t' ?ivd = rglob t3 ?ivd" by (simp add: rglob_def t'f filter_map comp_def)
    then show ?thesis using rg3 by simp
  qed
  have mv_ne: "?mv k \<noteq> ?mp \<and> lookup t' (?mv k) = lookup t k" if "k \<in> set ks" for k
  proof -
    have u: "prefix ?sp k" using ks_under[OF that] by simp
    have l2: "lookup t2 (?mv k) = lookup t k" using rf(2)[OF u] .
    have "lookup t k \<noteq> None" using ks_under[OF that] keys_lookup by blast
    then have ne: "?mv k \<noteq> ?mp" using l2 mp2 by auto
    have "prefix ?ivd (?mv k)" using u by (simp add: move_path_under)
    then have "lookup t' (?mv k) = lookup t3 (?mv k)" by (rule lk')
    also have "\<dots> = lookup t2 (?mv k)"
      using ne by (auto simp: t3 lookup_def map_add_def split: option.splits)
    finally show ?thesis using ne l2 by simp
  qed
  have e3: "entries = filter (\<lambda>p. p \<noteq> ?mp \<and> lookup t' p \<noteq> Some Dir) (rglob t' ?ivd)"
  proof -
    have "filter (\<lambda>p. p \<noteq> ?mp \<and> lookup t' p \<noteq> Some Dir) (map ?mv ks)
          = map ?mv (filter (\<lambda>p. lookup t p \<noteq> Some Dir) ks)"
      using mv_ne by (intro filter_map_key) simp
    then show ?thesis by (simp add: rg' entries_def)
  qed
  have "?mp \<notin> set entries"
  proof
    assume "?mp \<in> set entries"
    then obtain k where "k \<in> set ks" "?mv k = ?mp" by (auto simp: entries_def)
    then show False using mv_ne by blast
  qed
  then show ?thesis using man e3 entries_def ks_def by blast
qed

theorem manifest_lists_tree_without_itself_witness:
  "parent_closed staged1
   \<and> lookup staged1 (staged_prefix ins0 @ [''.install-manifest'']) = None
   \<and> fst (commit_install ins0 staged1) = Inr ()
   \<and> (\<exists>entries.
         lookup (snd (commit_install ins0 staged1)) (manifest_path ins0)
           = Some (File False no_prog (join [CHR 0x0A] (map path_str entries) @ [CHR 0x0A]))
       \<and> entries = map (move_path (staged_prefix ins0) (install_version_dir ins0))
                      (filter (\<lambda>p. lookup staged1 p \<noteq> Some Dir) (rglob staged1 (staged_prefix ins0)))
       \<and> entries = filter (\<lambda>p. p \<noteq> manifest_path ins0
                                \<and> lookup (snd (commit_install ins0 staged1)) p \<noteq> Some Dir)
                      (rglob (snd (commit_install ins0 staged1)) (install_version_dir ins0))
       \<and> manifest_path ins0 \<notin> set entries)
   \<and> text_of (the (lookup (snd (commit_install ins0 staged1)) (manifest_path ins0)))
       = ''/root/.local/opt/python-3.12.2/bin/python3.12'' @ [CHR 0x0A]
         @ ''/root/.local/opt/python-3.12.2/bin/python3'' @ [CHR 0x0A]"
proof -
  have a1: "parent_closed staged1" by code_simp
  have a2: "lookup staged1 (staged_prefix ins0 @ [''.install-manifest'']) = None" by code_simp
  have a3: "commit_install ins0 staged1 = (Inr (), snd (commit_install ins0 staged1))" by code_simp
  have a4: "text_of (the (lookup (snd (commit_install ins0 staged1)) (manifest_path ins0)))
       = ''/root/.local/opt/python-3.12.2/bin/python3.12'' @ [CHR 0x0A]
         @ ''/root/.local/opt/python-3.12.2/bin/python3'' @ [CHR 0x0A]" by code_simp
  have a5: "fst (commit_install ins0 staged1) = Inr ()" by code_simp
  show ?thesis
    using manifest_lists_tree_without_itself [OF a1 a2 a3] a1 a2 a4 a5 by blast
qed

theorem manifest_lists_itself_counterexample:
  "fst (commit_install ins0 t_staged_manifest) = Inr ()
   \<and> lookup (snd (commit_install ins0 t_staged_manifest)) (manifest_path ins0)
       = Some (File False no_prog
           (''/root/.local/opt/python-3.12.2/bin/python3.12'' @ [CHR 0x0A]
            @ ''/root/.local/opt/python-3.12.2/.install-manifest'' @ [CHR 0x0A]))
   \<and> path_str (manifest_path ins0) = ''/root/.local/opt/python-3.12.2/.install-manifest''"
  by code_simp

section \<open>The registry\<close>

lemma candidates_loop_prefix_of [simp]:
  "prefix_of (candidates_loop v t nfo cs) = prefix_of nfo"
  by (induction cs arbitrary: nfo) (auto simp: Let_def split: sum.splits)

lemma entry_info_prefix_of [simp]: "prefix_of (entry_info which t entry) = entry"
  by (simp add: entry_info_def Let_def)

lemma candidates_loop_find:
  "\<not> valid nfo \<Longrightarrow> python nfo = None \<Longrightarrow>
   valid (candidates_loop v t nfo cs) = (List.find (reports_exactly v t) cs \<noteq> None)
   \<and> python (candidates_loop v t nfo cs) = List.find (reports_exactly v t) cs
   \<and> (valid (candidates_loop v t nfo cs) \<longrightarrow>
        runtime_version (candidates_loop v t nfo cs) = Some v
        \<and> error_of (candidates_loop v t nfo cs) = None)"
  by (induction cs arbitrary: nfo) (auto simp: reports_exactly_def Let_def split: sum.splits)

lemma find_Some_ex: "(\<exists>y. List.find P xs = Some y) = (\<exists>x \<in> set xs. P x)"
  by (induction xs) auto

lemma glob_python3_not_dir: "\<not> pexists t d \<Longrightarrow> glob_python3 t d = []"
  by (simp add: glob_python3_def pexists_def is_dir_def)

lemma entry_info_valid:
  "valid (entry_info which t entry) =
     (pexists t (entry @ [''bin''])
      \<and> (\<exists>c \<in> set (glob_python3 t (entry @ [''bin''])). reports_exactly (drop 7 (last entry)) t c))
   \<and> python (entry_info which t entry) =
       List.find (reports_exactly (drop 7 (last entry)) t) (sort (glob_python3 t (entry @ [''bin''])))
   \<and> (valid (entry_info which t entry) \<longrightarrow>
        runtime_version (entry_info which t entry) = Some (drop 7 (last entry)))"
proof -
  let ?v = "drop 7 (last entry)"
  let ?cs = "sort (glob_python3 t (entry @ [''bin'']))"
  let ?n = "\<lparr>prefix_of = entry, python = None, runtime_version = None,
                 valid = False, activated = False, error_of = None\<rparr>"
  have l: "valid (candidates_loop ?v t ?n ?cs) = (List.find (reports_exactly ?v t) ?cs \<noteq> None)
   \<and> python (candidates_loop ?v t ?n ?cs) = List.find (reports_exactly ?v t) ?cs
   \<and> (valid (candidates_loop ?v t ?n ?cs) \<longrightarrow>
        runtime_version (candidates_loop ?v t ?n ?cs) = Some ?v
        \<and> error_of (candidates_loop ?v t ?n ?cs) = None)"
    by (rule candidates_loop_find) simp_all
  show ?thesis
  proof (cases "pexists t (entry @ [''bin''])")
    case False
    then show ?thesis by (simp add: entry_info_def Let_def glob_python3_not_dir)
  next
    case True
    show ?thesis
    proof (cases "glob_python3 t (entry @ [''bin'']) = []")
      case e: True
      then show ?thesis using True by (simp add: entry_info_def Let_def)
    next
      case ne: False
      then show ?thesis using True l
        by (simp add: entry_info_def Let_def sort_Nil_iff find_Some_ex)
    qed
  qed
qed

lemma dict_set_keys:
  "map fst (dict_set d k x) = (if map_of d k = None then map fst d @ [k] else map fst d)"
  by (auto simp: dict_set_def intro: map_idI)

lemma dict_set_distinct: "distinct (map fst d) \<Longrightarrow> distinct (map fst (dict_set d k x))"
  by (auto simp: dict_set_keys map_of_eq_None_iff)

lemma dict_set_member:
  "e \<in> set (dict_set d k x) \<Longrightarrow> e = (k, x) \<or> (e \<in> set d \<and> fst e \<noteq> k)"
  by (auto simp: dict_set_def map_of_eq_None_iff image_iff split: if_splits)

lemma python_name: "prefix ''python-'' n \<Longrightarrow> ''python-'' @ drop 7 n = n"
  by (auto simp: prefix_def)

lemma find_installed_loop_inv:
  assumes "distinct (map fst vs)"
    and "\<forall>e \<in> set vs. snd e = entry_info which t (root @ [''python-'' @ fst e])"
    and "\<forall>en \<in> set es. en \<noteq> [] \<and> butlast en = root"
  shows "distinct (map fst (find_installed_loop which t vs es))
       \<and> (\<forall>e \<in> set (find_installed_loop which t vs es).
             snd e = entry_info which t (root @ [''python-'' @ fst e]))"
  using assms
proof (induction es arbitrary: vs)
  case Nil
  then show ?case by simp
next
  case (Cons en es)
  show ?case
  proof (cases "is_dir t en \<and> prefix ''python-'' (last en)")
    case False
    then show ?thesis using Cons by auto
  next
    case True
    let ?k = "drop 7 (last en)"
    let ?vs = "dict_set vs ?k (entry_info which t en)"
    have en: "en = root @ [''python-'' @ ?k]"
      using Cons.prems(3) True python_name[of "last en"] append_butlast_last_id[of en] by auto
    have d: "distinct (map fst ?vs)" using Cons.prems(1) by (rule dict_set_distinct)
    have i: "\<forall>e \<in> set ?vs. snd e = entry_info which t (root @ [''python-'' @ fst e])"
    proof
      fix e assume "e \<in> set ?vs"
      from dict_set_member[OF this] show "snd e = entry_info which t (root @ [''python-'' @ fst e])"
        using Cons.prems(2) en by auto
    qed
    have "distinct (map fst (find_installed_loop which t ?vs es))
       \<and> (\<forall>e \<in> set (find_installed_loop which t ?vs es).
             snd e = entry_info which t (root @ [''python-'' @ fst e]))"
      using Cons.IH[OF d i] Cons.prems(3) by simp
    then show ?thesis using True by simp
  qed
qed

lemma find_installed_versions_inv:
  assumes "find_installed_versions hm which t = Inr installed"
  shows "distinct (map fst installed)
       \<and> (\<forall>e \<in> set installed. snd e = entry_info which t (INSTALL_ROOT hm @ [''python-'' @ fst e]))"
proof (cases "pexists t (INSTALL_ROOT hm)")
  case False
  then show ?thesis using assms by (simp add: find_installed_versions_def)
next
  case True
  then have "installed = find_installed_loop which t [] (iterdir t (INSTALL_ROOT hm))"
    using assms by (simp add: find_installed_versions_def split: if_splits)
  then show ?thesis
    using find_installed_loop_inv[of "[]" which t "INSTALL_ROOT hm" "iterdir t (INSTALL_ROOT hm)"]
    by (simp add: iterdir_def)
qed

lemma rmtree_removed:
  "e \<in> set t \<Longrightarrow> e \<notin> set (snd (rmtree t p)) \<Longrightarrow> prefix p (fst e)"
  by (auto simp: rmtree_def split: option.splits node.splits)

lemma rmtree_tree_at:
  assumes "\<not> prefix p q" "\<not> prefix q p"
  shows "tree_at (snd (rmtree t p)) q = tree_at t q"
proof -
  have "\<not> prefix p x" if "prefix q x" for x
    using that assms prefix_same_cases by blast
  then have "filter (\<lambda>e. prefix q (fst e)) (filter (\<lambda>e. \<not> prefix p (fst e)) t)
           = filter (\<lambda>e. prefix q (fst e)) t"
    by (auto intro: filter_cong)
  then show ?thesis
    by (auto simp: rmtree_def tree_at_def split: option.splits node.splits)
qed

lemma remove_broken_loop_tree_at:
  assumes "\<forall>item \<in> set items. \<not> valid (snd item) \<longrightarrow>
             \<not> prefix (prefix_of (snd item)) q \<and> \<not> prefix q (prefix_of (snd item))"
  shows "tree_at (remove_broken_loop t items) q = tree_at t q"
  using assms
  by (induction items arbitrary: t) (auto simp: rmtree_tree_at)

lemma remove_broken_loop_removed:
  "e \<in> set t \<Longrightarrow> e \<notin> set (remove_broken_loop t items) \<Longrightarrow>
   \<exists>item \<in> set items. \<not> valid (snd item) \<and> prefix (prefix_of (snd item)) (fst e)"
proof (induction items arbitrary: t)
  case Nil
  then show ?case by simp
next
  case (Cons item items)
  show ?case
  proof (cases "valid (snd item)")
    case True
    then show ?thesis using Cons by auto
  next
    case False
    show ?thesis
    proof (cases "e \<in> set (snd (rmtree t (prefix_of (snd item))))")
      case True
      then show ?thesis using Cons False by auto
    next
      case nin: False
      then show ?thesis using rmtree_removed[OF Cons.prems(1) nin] False by auto
    qed
  qed
qed

text \<open>
  Claim C8. \<^verbatim>\<open>remove_broken\<close> never deletes from a prefix the registry classifies valid:
  the tree at such a prefix is unchanged. In terms of the file system: when
  \<^verbatim>\<open>python-v\<close> is a directory of the installation root whose \<^verbatim>\<open>bin\<close> holds an executable
  \<^verbatim>\<open>python3.*\<close> candidate that reports exactly \<open>v\<close>, the tree at it is unchanged, whether
  or not it has a manifest. Every entry that is deleted lies at or below a prefix the
  registry classifies invalid.
\<close>

theorem remove_broken_spares_valid:
  "(\<forall>installed v i.
      find_installed_versions hm which t = Inr installed \<and> (v, i) \<in> set installed \<and> valid i \<longrightarrow>
      tree_at (snd (remove_broken hm which t)) (prefix_of i) = tree_at t (prefix_of i))
   \<and> (\<forall>v. is_dir t (INSTALL_ROOT hm @ [''python-'' @ v])
          \<and> (\<exists>c \<in> set (glob_python3 t (INSTALL_ROOT hm @ [''python-'' @ v, ''bin''])).
                 reports_exactly v t c) \<longrightarrow>
          tree_at (snd (remove_broken hm which t)) (INSTALL_ROOT hm @ [''python-'' @ v])
            = tree_at t (INSTALL_ROOT hm @ [''python-'' @ v]))
   \<and> (\<forall>installed e.
        find_installed_versions hm which t = Inr installed \<and> e \<in> set t
        \<and> e \<notin> set (snd (remove_broken hm which t)) \<longrightarrow>
        (\<exists>item \<in> set installed. \<not> valid (snd item) \<and> prefix (prefix_of (snd item)) (fst e)))"
proof -
  let ?root = "INSTALL_ROOT hm"
  have A: "tree_at (snd (remove_broken hm which t)) (?root @ [''python-'' @ v]) =
           tree_at t (?root @ [''python-'' @ v])"
    if f: "find_installed_versions hm which t = Inr installed"
      and va: "valid (entry_info which t (?root @ [''python-'' @ v]))"
    for installed v
  proof -
    from find_installed_versions_inv[OF f]
    have inv: "\<forall>e \<in> set installed. snd e = entry_info which t (?root @ [''python-'' @ fst e])"
      by simp
    have "\<not> prefix (prefix_of (snd item)) (?root @ [''python-'' @ v])
          \<and> \<not> prefix (?root @ [''python-'' @ v]) (prefix_of (snd item))"
      if "item \<in> set installed" "\<not> valid (snd item)" for item
    proof -
      have s: "snd item = entry_info which t (?root @ [''python-'' @ fst item])"
        using inv that(1) by blast
      then have "fst item \<noteq> v" using that(2) va by auto
      then show ?thesis using s by simp
    qed
    then have "tree_at (remove_broken_loop t installed) (?root @ [''python-'' @ v]) =
               tree_at t (?root @ [''python-'' @ v])"
      by (intro remove_broken_loop_tree_at) blast
    then show ?thesis using f by (simp add: remove_broken_def)
  qed
  have one: "tree_at (snd (remove_broken hm which t)) (prefix_of i) = tree_at t (prefix_of i)"
    if f: "find_installed_versions hm which t = Inr installed"
      and m: "(v, i) \<in> set installed" and va: "valid i"
    for installed v i
  proof -
    from find_installed_versions_inv[OF f] m
    have i: "i = entry_info which t (?root @ [''python-'' @ v])" by auto
    then have "prefix_of i = ?root @ [''python-'' @ v]" by simp
    then show ?thesis using A[OF f, of v] va i by simp
  qed
  have two: "tree_at (snd (remove_broken hm which t)) (?root @ [''python-'' @ v])
            = tree_at t (?root @ [''python-'' @ v])"
    if d: "is_dir t (?root @ [''python-'' @ v])"
      and c: "\<exists>c \<in> set (glob_python3 t (?root @ [''python-'' @ v, ''bin''])). reports_exactly v t c"
    for v
  proof (cases "find_installed_versions hm which t")
    case (Inl e)
    then show ?thesis by (simp add: remove_broken_def)
  next
    case (Inr installed)
    from c have "glob_python3 t (?root @ [''python-'' @ v, ''bin'']) \<noteq> []" by auto
    then have "pexists t ((?root @ [''python-'' @ v]) @ [''bin''])"
      using glob_python3_not_dir by fastforce
    then have "valid (entry_info which t (?root @ [''python-'' @ v]))"
      using c entry_info_valid[of which t "?root @ [''python-'' @ v]"] by simp
    then show ?thesis using A[OF Inr] by simp
  qed
  have three: "\<exists>item \<in> set installed. \<not> valid (snd item) \<and> prefix (prefix_of (snd item)) (fst e)"
    if "find_installed_versions hm which t = Inr installed" "e \<in> set t"
      "e \<notin> set (snd (remove_broken hm which t))"
    for installed e
    using that remove_broken_loop_removed[of e t installed] by (simp add: remove_broken_def)
  show ?thesis using one two three by blast
qed

theorem remove_broken_spares_valid_witness:
  "is_dir t_registry (INSTALL_ROOT [''root''] @ [''python-'' @ ''3.12.2''])
   \<and> reports_exactly ''3.12.2'' t_registry (INSTALL_ROOT [''root''] @ [''python-'' @ ''3.12.2'', ''bin'', ''python3.12''])
   \<and> \<not> pexists t_registry (INSTALL_ROOT [''root''] @ [''python-'' @ ''3.12.2'', ''.install-manifest''])
   \<and> tree_at (snd (remove_broken [''root''] which_none t_registry)) (INSTALL_ROOT [''root''] @ [''python-'' @ ''3.12.2''])
       = tree_at t_registry (INSTALL_ROOT [''root''] @ [''python-'' @ ''3.12.2''])
   \<and> tree_at t_registry (INSTALL_ROOT [''root''] @ [''python-'' @ ''3.12.2'']) \<noteq> []
   \<and> tree_at (snd (remove_broken [''root''] which_none t_registry)) (INSTALL_ROOT [''root''] @ [''python-'' @ ''3.11.0'']) = []"
proof -
  have a1: "is_dir t_registry (INSTALL_ROOT [''root''] @ [''python-'' @ ''3.12.2''])" by code_simp
  have a2: "reports_exactly ''3.12.2'' t_registry (INSTALL_ROOT [''root''] @ [''python-'' @ ''3.12.2'', ''bin'', ''python3.12''])"
    by code_simp
  have a3: "INSTALL_ROOT [''root''] @ [''python-'' @ ''3.12.2'', ''bin'', ''python3.12'']
            \<in> set (glob_python3 t_registry (INSTALL_ROOT [''root''] @ [''python-'' @ ''3.12.2'', ''bin'']))"
    by code_simp
  have a4: "\<not> pexists t_registry (INSTALL_ROOT [''root''] @ [''python-'' @ ''3.12.2'', ''.install-manifest''])"
    by code_simp
  have a5: "tree_at t_registry (INSTALL_ROOT [''root''] @ [''python-'' @ ''3.12.2'']) \<noteq> []" by code_simp
  have a6: "tree_at (snd (remove_broken [''root''] which_none t_registry)) (INSTALL_ROOT [''root''] @ [''python-'' @ ''3.11.0'']) = []"
    by code_simp
  show ?thesis
    using remove_broken_spares_valid [of "[''root'']" which_none t_registry] a1 a2 a3 a4 a5 a6
    by blast
qed

text \<open>
  Claim C9 at a failing input. The prefix \<^verbatim>\<open>python-3.11.0\<close> holds one executable candidate,
  which runs and reports 3.11.9. The registry marks the version invalid and records no
  error: the reason the \<^verbatim>\<open>list\<close> command prints for it is \<^verbatim>\<open>None\<close>.
\<close>

theorem registry_mismatch_without_reason:
  "find_installed_versions [''root''] which_none t_registry =
     Inr [(''3.12.2'',
           \<lparr>prefix_of = root0 @ [''python-3.12.2''],
              python = Some (root0 @ [''python-3.12.2'', ''bin'', ''python3.12'']),
              runtime_version = Some ''3.12.2'', valid = True, activated = False,
              error_of = None\<rparr>),
          (''3.11.0'',
           \<lparr>prefix_of = root0 @ [''python-3.11.0''], python = None,
              runtime_version = None, valid = False, activated = False,
              error_of = None\<rparr>),
          (''3.10.0'',
           \<lparr>prefix_of = root0 @ [''python-3.10.0''], python = None,
              runtime_version = None, valid = False, activated = False,
              error_of = Some ''missing bin directory''\<rparr>)]"
  by code_simp

text \<open>
  The part of claim C9 that holds. An entry of the registry is the record computed for
  the prefix of its version; it is valid exactly when \<^verbatim>\<open>bin\<close> exists and holds a candidate
  that is executable, runs, and reports exactly the version of the directory name; the
  binary recorded is the first such candidate of the sorted list.
\<close>

lemma registry_entry_valid_iff:
  assumes "find_installed_versions hm which t = Inr installed" "(v, i) \<in> set installed"
  shows "valid i =
           (pexists t (INSTALL_ROOT hm @ [''python-'' @ v, ''bin''])
            \<and> (\<exists>c \<in> set (glob_python3 t (INSTALL_ROOT hm @ [''python-'' @ v, ''bin''])).
                   reports_exactly v t c))
       \<and> python i = List.find (reports_exactly v t)
                      (sort (glob_python3 t (INSTALL_ROOT hm @ [''python-'' @ v, ''bin''])))
       \<and> (valid i \<longrightarrow> runtime_version i = Some v)"
proof -
  from find_installed_versions_inv[OF assms(1)] assms(2)
  have "i = entry_info which t (INSTALL_ROOT hm @ [''python-'' @ v])" by auto
  then show ?thesis
    using entry_info_valid[of which t "INSTALL_ROOT hm @ [''python-'' @ v]"] by simp
qed

end
